theory Spec2Isabelle
  imports Complex_Main "HOL-Library.Word" "HOL-Library.Multiset"
begin

section \<open>Python values, exceptions and strings\<close>

text \<open>
  A Python float is modelled by the real number it denotes, or by one of the three
  special values. Rounding is not modelled.
\<close>

datatype pynum = NaN | NInf | Fin real | PInf

text \<open>The Python objects of the model: booleans, integers (unbounded), floats, strings,
  \<open>None\<close>, and the module object that Python's \<open>eval\<close> stores under
  \<open>__builtins__\<close>.\<close>

datatype pyval = Bool bool | Integer int | Float pynum | Str string | NoneVal | Builtins

text \<open>The exceptions of the model; \<open>OtherException\<close> carries the class name of an
  exception of any other class (one that derives from none of the classes named
  here).\<close>

datatype pyexn =
    NameError
  | TypeError
  | ValueError
  | IndexError
  | ZeroDivisionError
  | AssertionError
  | OverflowError
  | SyntaxError
  | MissingRating string string
  | OtherException string

text \<open>The numeric value of a number; \<open>True\<close> is 1. Strings, \<open>None\<close> and modules have
  none.\<close>

fun num_of :: "pyval \<Rightarrow> pynum option" where
  "num_of (Bool b) = Some (Fin (if b then 1 else 0))"
| "num_of (Integer n) = Some (Fin (of_int n))"
| "num_of (Float x) = Some x"
| "num_of (Str s) = None"
| "num_of NoneVal = None"
| "num_of Builtins = None"

text \<open>Python's \<open><\<close> and \<open><=\<close> on floats: every comparison with NaN is false.\<close>

fun py_lt :: "pynum \<Rightarrow> pynum \<Rightarrow> bool" where
  "py_lt NaN _ = False"
| "py_lt _ NaN = False"
| "py_lt NInf NInf = False"
| "py_lt NInf _ = True"
| "py_lt (Fin x) (Fin y) = (x < y)"
| "py_lt (Fin x) PInf = True"
| "py_lt (Fin x) NInf = False"
| "py_lt PInf _ = False"

fun py_le :: "pynum \<Rightarrow> pynum \<Rightarrow> bool" where
  "py_le NaN _ = False"
| "py_le _ NaN = False"
| "py_le NInf _ = True"
| "py_le (Fin x) (Fin y) = (x \<le> y)"
| "py_le (Fin x) PInf = True"
| "py_le (Fin x) NInf = False"
| "py_le PInf PInf = True"
| "py_le PInf _ = False"

text \<open>Python's \<open><\<close> and \<open><=\<close> on strings: lexicographic in the code points.\<close>

fun str_lt :: "string \<Rightarrow> string \<Rightarrow> bool" where
  "str_lt [] [] = False"
| "str_lt [] (b # t) = True"
| "str_lt (a # s) [] = False"
| "str_lt (a # s) (b # t) = ((of_char a :: nat) < of_char b \<or> (a = b \<and> str_lt s t))"

text \<open>
  Python's \<open><\<close> and \<open><=\<close> on objects. Booleans, integers and floats are compared
  by their exact numeric values, two strings lexicographically; every other pair of
  operands raises \<open>TypeError\<close>.
\<close>

definition val_lt :: "pyval \<Rightarrow> pyval \<Rightarrow> pyexn + bool" where
  "val_lt a b =
     (case num_of a of
        Some x \<Rightarrow> (case num_of b of Some y \<Rightarrow> Inr (py_lt x y) | None \<Rightarrow> Inl TypeError)
      | None \<Rightarrow>
          (case a of
             Str s \<Rightarrow> (case b of Str t \<Rightarrow> Inr (str_lt s t) | _ \<Rightarrow> Inl TypeError)
           | _ \<Rightarrow> Inl TypeError))"

definition val_le :: "pyval \<Rightarrow> pyval \<Rightarrow> pyexn + bool" where
  "val_le a b =
     (case num_of a of
        Some x \<Rightarrow> (case num_of b of Some y \<Rightarrow> Inr (py_le x y) | None \<Rightarrow> Inl TypeError)
      | None \<Rightarrow>
          (case a of
             Str s \<Rightarrow> (case b of Str t \<Rightarrow> Inr (s = t \<or> str_lt s t) | _ \<Rightarrow> Inl TypeError)
           | _ \<Rightarrow> Inl TypeError))"

text \<open>
  \<open>math.isnan\<close>: a float is tested; an integer is first converted to a float, which
  raises \<open>OverflowError\<close> when it rounds to \<open>2 ^ 1024\<close> or beyond; anything that is
  not a number raises \<open>TypeError\<close>.
\<close>

definition math_isnan :: "pyval \<Rightarrow> pyexn + bool" where
  "math_isnan v =
     (case v of
        Float x \<Rightarrow> Inr (x = NaN)
      | Integer n \<Rightarrow> if 2 ^ 1024 - 2 ^ 970 \<le> \<bar>n\<bar> then Inl OverflowError else Inr False
      | Bool b \<Rightarrow> Inr False
      | _ \<Rightarrow> Inl TypeError)"

text \<open>
  Strings are lists of code points below 256. \<open>str.isspace\<close> holds there for
  the code points 9 to 13, 28 to 32, 133 and 160; \<open>str.lower\<close> moves the
  upper-case letters of ASCII and of Latin-1 up by 32.
\<close>

definition is_space :: "char \<Rightarrow> bool" where
  "is_space c =
     (let n = (of_char c :: nat)
      in (9 \<le> n \<and> n \<le> 13) \<or> (28 \<le> n \<and> n \<le> 32) \<or> n = 133 \<or> n = 160)"

definition strip :: "string \<Rightarrow> string" where
  "strip s = rev (dropWhile is_space (rev (dropWhile is_space s)))"

definition lower_char :: "char \<Rightarrow> char" where
  "lower_char c =
     (let n = (of_char c :: nat)
      in if (65 \<le> n \<and> n \<le> 90) \<or> (192 \<le> n \<and> n \<le> 214) \<or> (216 \<le> n \<and> n \<le> 222)
         then char_of (n + 32) else c)"

definition lower :: "string \<Rightarrow> string" where
  "lower s = map lower_char s"

text \<open>\<open>s.partition(sep)[0]\<close> for a one-character separator: the text before the first
  occurrence of \<open>sep\<close>, the whole string when there is none.\<close>

definition partition_head :: "char \<Rightarrow> string \<Rightarrow> string" where
  "partition_head sep s = takeWhile (\<lambda>c. c \<noteq> sep) s"

section \<open>Rating resolver\<close>

text \<open>A rating table is a section of the configuration file: an ordered dictionary,
  kept as an association list.\<close>

type_synonym 'v rating_table = "(string \<times> 'v) list"

definition get_rating ::
  "string \<Rightarrow> 'v rating_table \<Rightarrow> string \<Rightarrow> 'v option \<Rightarrow> pyexn + 'v" where
  "get_rating name dict key fallback =
     (let key = strip (partition_head (CHR ''/'') (partition_head (CHR ''('') key))
      in case map_of dict key of
           Some v \<Rightarrow> Inr v
         | None \<Rightarrow>
             (case fallback of
                None \<Rightarrow> Inl (MissingRating name key)
              | Some fb \<Rightarrow> Inr fb))"

section \<open>Formula evaluator\<close>

text \<open>
  A variable snapshot is the dictionary handed to \<open>eval\<close> as its globals. The formula
  text itself is run by Python's \<open>eval\<close>, which is not part of the repository, and
  it is arbitrary Python: it has the builtins at hand and can write to its globals
  (\<open>globals().update(born=0) or born\<close>). A formula is represented by what it denotes:
  a function from the globals it is started on to its value or its exception (a text
  that does not compile raises \<open>SyntaxError\<close>), together with the globals as it leaves
  them. What a formula does outside its globals is not modelled.
\<close>

type_synonym vars = "string \<rightharpoonup> pyval"

type_synonym formula = "vars \<Rightarrow> (pyexn + pyval) \<times> vars"

text \<open>\<open>eval(formula, vars, {})\<close>: before the expression is compiled and run, \<open>eval\<close>
  stores the builtins module under \<open>__builtins__\<close> in the globals dictionary when that
  key is absent. The dictionary is the caller's object, so it is returned with the
  result, in the state in which the formula leaves it.\<close>

definition py_eval :: "formula \<Rightarrow> vars \<Rightarrow> (pyexn + pyval) \<times> vars" where
  "py_eval formula vars =
     formula (case vars ''__builtins__'' of
                None \<Rightarrow> vars(''__builtins__'' \<mapsto> Builtins)
              | Some _ \<Rightarrow> vars)"

definition eval_formula :: "formula \<Rightarrow> vars \<Rightarrow> (pyexn + pyval) \<times> vars" where
  "eval_formula formula vars =
     (case py_eval formula vars of
        (Inr v, g) \<Rightarrow> (Inr v, g)
      | (Inl e, g) \<Rightarrow>
          if e = NameError \<or> e = TypeError
          then (Inl ValueError, g(''__builtins__'' := None))
          else (Inl e, g))"

section \<open>Applicants and scoring\<close>

record person =
  name :: string
  lastname :: string
  email :: string
  nation :: string
  born :: string
  gender :: string
  institute :: string
  group :: string
  country :: string
  applied :: string
  programming :: string
  python :: string
  open_source :: string
  score :: "pyval option"
  rank :: "nat option"

definition fullname :: "person \<Rightarrow> string" where
  "fullname p = name p @ '' '' @ lastname p"

text \<open>\<open>list_of_float.mean\<close>: the mean of the gradings that are present, NaN when there
  is none. Gradings are finite numbers.\<close>

definition mean :: "real option list \<Rightarrow> pynum" where
  "mean self =
     (let valid = [x. Some x \<leftarrow> self]
      in if valid = [] then NaN else Fin (sum_list valid / real (length valid)))"

text \<open>
  \<open>int(s)\<close> on a string: surrounding whitespace, an optional sign, decimal digits
  with single underscores between them. The whitespace \<open>int\<close> skips is narrower than
  that of \<open>str.strip\<close>: the code points 28 to 31 are not part of it. CPython (3.11 and
  later, by default) refuses a string of more than 4300 digits.
\<close>

definition is_int_space :: "char \<Rightarrow> bool" where
  "is_int_space c =
     (let n = (of_char c :: nat)
      in (9 \<le> n \<and> n \<le> 13) \<or> n = 32 \<or> n = 133 \<or> n = 160)"

definition is_digit :: "char \<Rightarrow> bool" where
  "is_digit c = (48 \<le> (of_char c :: nat) \<and> (of_char c :: nat) \<le> 57)"

fun parse_digits :: "nat \<Rightarrow> string \<Rightarrow> nat option" where
  "parse_digits acc [] = Some acc"
| "parse_digits acc (c # cs) =
     (if is_digit c then parse_digits (10 * acc + (of_char c - 48)) cs
      else if c = CHR ''_'' \<and> cs \<noteq> [] \<and> is_digit (hd cs) then parse_digits acc cs
      else None)"

definition parse_unsigned :: "string \<Rightarrow> nat option" where
  "parse_unsigned s =
     (case s of [] \<Rightarrow> None | c # _ \<Rightarrow> if is_digit c then parse_digits 0 s else None)"

definition py_int :: "string \<Rightarrow> pyexn + int" where
  "py_int s =
     (if 4300 < length (filter is_digit s) then Inl ValueError
      else
        case rev (dropWhile is_int_space (rev (dropWhile is_int_space s))) of
          [] \<Rightarrow> Inl ValueError
        | c # cs \<Rightarrow>
            if c = CHR ''-'' then
              (case parse_unsigned cs of None \<Rightarrow> Inl ValueError | Some n \<Rightarrow> Inr (- int n))
            else if c = CHR ''+'' then
              (case parse_unsigned cs of None \<Rightarrow> Inl ValueError | Some n \<Rightarrow> Inr (int n))
            else
              (case parse_unsigned (c # cs) of None \<Rightarrow> Inl ValueError | Some n \<Rightarrow> Inr (int n)))"

text \<open>The variable snapshot \<open>rank_person\<close> builds: the three ratings first, then the
  keyword arguments of \<open>vars.update\<close> in their order.\<close>

definition person_vars ::
  "person \<Rightarrow> pynum rating_table \<Rightarrow> pynum rating_table \<Rightarrow> pynum rating_table \<Rightarrow>
   real option list \<Rightarrow> real option list \<Rightarrow> pyexn + vars" where
  "person_vars p programming_rating open_source_rating python_rating
               motivation_scores cv_scores =
     (case get_rating ''programming'' programming_rating (programming p) None of
        Inl e \<Rightarrow> Inl e
      | Inr v1 \<Rightarrow>
     (case get_rating ''open_source'' open_source_rating (open_source p) None of
        Inl e \<Rightarrow> Inl e
      | Inr v2 \<Rightarrow>
     (case get_rating ''python'' python_rating (python p) None of
        Inl e \<Rightarrow> Inl e
      | Inr v3 \<Rightarrow>
     (case py_int (born p) of
        Inl e \<Rightarrow> Inl e
      | Inr b \<Rightarrow>
     (case applied p of
        [] \<Rightarrow> Inl IndexError
      | a # _ \<Rightarrow>
          Inr (Map.empty
                (''programming'' \<mapsto> Float v1,
                 ''open_source'' \<mapsto> Float v2,
                 ''python'' \<mapsto> Float v3,
                 ''born'' \<mapsto> Integer b,
                 ''gender'' \<mapsto> Str (gender p),
                 ''female'' \<mapsto> Bool (gender p = ''Female''),
                 ''applied'' \<mapsto> Bool (a \<noteq> CHR ''n'' \<and> a \<noteq> CHR ''N''),
                 ''nation'' \<mapsto> Str (nation p),
                 ''country'' \<mapsto> Str (country p),
                 ''motivation'' \<mapsto> Float (mean motivation_scores),
                 ''cv'' \<mapsto> Float (mean cv_scores),
                 ''email'' \<mapsto> Str (email p))))))))"

text \<open>
  The assertion of \<open>rank_person\<close>, \<open>math.isnan(score) or minsc <= score <= maxsc\<close>,
  in Python's order of evaluation: \<open>math.isnan\<close> first, then the first comparison, and
  the second one only when the first holds. Each of the three can raise; a false
  outcome raises \<open>AssertionError\<close>.
\<close>

definition check_score :: "pyval \<Rightarrow> pyval \<Rightarrow> pyval \<Rightarrow> pyexn + unit" where
  "check_score minsc sc maxsc =
     (case math_isnan sc of
        Inl e \<Rightarrow> Inl e
      | Inr True \<Rightarrow> Inr ()
      | Inr False \<Rightarrow>
          (case val_le minsc sc of
             Inl e \<Rightarrow> Inl e
           | Inr False \<Rightarrow> Inl AssertionError
           | Inr True \<Rightarrow>
               (case val_le sc maxsc of
                  Inl e \<Rightarrow> Inl e
                | Inr False \<Rightarrow> Inl AssertionError
                | Inr True \<Rightarrow> Inr ())))"

text \<open>\<open>rank_person\<close> returns the score, which has passed \<open>math.isnan\<close> and so is a
  number.\<close>

definition rank_person ::
  "person \<Rightarrow> formula \<Rightarrow> pynum rating_table \<Rightarrow> pynum rating_table \<Rightarrow> pynum rating_table \<Rightarrow>
   real option list \<Rightarrow> real option list \<Rightarrow> pyval \<Rightarrow> pyval \<Rightarrow> pyexn + pyval" where
  "rank_person p formula programming_rating open_source_rating python_rating
               motivation_scores cv_scores minsc maxsc =
     (case person_vars p programming_rating open_source_rating python_rating
             motivation_scores cv_scores of
        Inl e \<Rightarrow> Inl e
      | Inr vars \<Rightarrow>
          (case fst (eval_formula formula vars) of
             Inl e \<Rightarrow> Inl e
           | Inr sc \<Rightarrow>
               (case check_score minsc sc maxsc of
                  Inl e \<Rightarrow> Inl e
                | Inr _ \<Rightarrow> Inr sc)))"

section \<open>Score bounds\<close>

definition SCORE_RANGE :: "pyval list" where
  "SCORE_RANGE = [Integer (- 1), Integer 0, Integer 1]"

definition HOST_COUNTRY :: string where
  "HOST_COUNTRY = ''Germany''"

definition yield_values :: "string \<Rightarrow> pyval list \<Rightarrow> (string \<times> pyval) list" where
  "yield_values var values = map (\<lambda>value. (var, value)) values"

text \<open>\<open>dict(pairs)\<close>: later pairs overwrite earlier ones.\<close>

definition dict_of :: "(string \<times> pyval) list \<Rightarrow> vars" where
  "dict_of pairs = foldl (\<lambda>m (k, v). m(k \<mapsto> v)) Map.empty pairs"

text \<open>The outer product of the axes, in the order of \<open>itertools.product\<close>: the last
  axis varies fastest.\<close>

definition options ::
  "pynum rating_table \<Rightarrow> pynum rating_table \<Rightarrow> pynum rating_table \<Rightarrow>
   (string \<times> pyval) list list" where
  "options programming_rating open_source_rating python_rating =
     product_lists
       [yield_values ''born'' [Integer 1900, Integer 2012],
        yield_values ''gender'' [Str ''M'', Str ''F''],
        yield_values ''female'' [Integer 0, Integer 1],
        yield_values ''nation'' [Str ''Nicaragua'', Str HOST_COUNTRY],
        yield_values ''country'' [Str ''Nicaragua'', Str HOST_COUNTRY],
        yield_values ''motivation'' SCORE_RANGE,
        yield_values ''cv'' SCORE_RANGE,
        yield_values ''programming'' (map (Float \<circ> snd) programming_rating),
        yield_values ''open_source'' (map (Float \<circ> snd) open_source_rating),
        yield_values ''applied'' [Integer 0, Integer 1],
        yield_values ''python'' (map (Float \<circ> snd) python_rating)]"

text \<open>The list comprehension of \<open>find_min_max\<close>: the first failing evaluation ends it.
  Every evaluation gets a fresh dictionary, which is dropped afterwards.\<close>

fun eval_all :: "formula \<Rightarrow> (string \<times> pyval) list list \<Rightarrow> pyexn + pyval list" where
  "eval_all formula [] = Inr []"
| "eval_all formula (vs # rest) =
     (case fst (eval_formula formula (dict_of vs)) of
        Inl e \<Rightarrow> Inl e
      | Inr v \<Rightarrow>
          (case eval_all formula rest of
             Inl e \<Rightarrow> Inl e
           | Inr xs \<Rightarrow> Inr (v # xs)))"

text \<open>Python's \<open>min\<close> and \<open>max\<close> keep the first element and replace it when a later
  one compares smaller (larger); a comparison that raises ends them.\<close>

fun py_min_from :: "pyval \<Rightarrow> pyval list \<Rightarrow> pyexn + pyval" where
  "py_min_from best [] = Inr best"
| "py_min_from best (x # xs) =
     (case val_lt x best of
        Inl e \<Rightarrow> Inl e
      | Inr b \<Rightarrow> py_min_from (if b then x else best) xs)"

fun py_max_from :: "pyval \<Rightarrow> pyval list \<Rightarrow> pyexn + pyval" where
  "py_max_from best [] = Inr best"
| "py_max_from best (x # xs) =
     (case val_lt best x of
        Inl e \<Rightarrow> Inl e
      | Inr b \<Rightarrow> py_max_from (if b then x else best) xs)"

definition find_min_max ::
  "formula \<Rightarrow> pynum rating_table \<Rightarrow> pynum rating_table \<Rightarrow> pynum rating_table \<Rightarrow>
   pyexn + (pyval \<times> pyval)" where
  "find_min_max formula programming_rating open_source_rating python_rating =
     (case eval_all formula (options programming_rating open_source_rating python_rating) of
        Inl e \<Rightarrow> Inl e
      | Inr [] \<Rightarrow> Inr (Float NaN, Float NaN)
      | Inr (v # vs) \<Rightarrow>
          (case py_min_from v vs of
             Inl e \<Rightarrow> Inl e
           | Inr mn \<Rightarrow>
               (case py_max_from v vs of
                  Inl e \<Rightarrow> Inl e
                | Inr mx \<Rightarrow> Inr (mn, mx))))"

section \<open>Cohort ranker\<close>

type_synonym equivs = "(string \<times> string list) list"

fun equiv_master :: "equivs \<Rightarrow> string \<Rightarrow> string" where
  "equiv_master [] variant = strip variant"
| "equiv_master ((key, values) # rest) variant =
     (if lower variant = lower key \<or> lower variant \<in> set (map lower values)
      then key else equiv_master rest variant)"

definition lab_key :: "equivs \<Rightarrow> person \<Rightarrow> string" where
  "lab_key eq p = equiv_master eq (institute p) @ '' / '' @ equiv_master eq (group p)"

text \<open>
  \<open>sorted(..., key=score, reverse=True)\<close>: a stable sort into descending order, as an
  insertion sort on pairs of score and applicant. The scores have passed
  \<open>math.isnan\<close>: they are numbers, and comparing them does not raise. With NaN among
  the scores the order in which CPython leaves the list depends on its sorting algorithm
  and differs from the order of this insertion sort; the list is a permutation either
  way.
\<close>

fun insert_desc :: "pyval \<times> 'a \<Rightarrow> (pyval \<times> 'a) list \<Rightarrow> (pyval \<times> 'a) list" where
  "insert_desc x [] = [x]"
| "insert_desc x (y # ys) =
     (if val_lt (fst x) (fst y) = Inr True then y # insert_desc x ys else x # y # ys)"

definition sorted_reverse :: "(pyval \<times> 'a) list \<Rightarrow> (pyval \<times> 'a) list" where
  "sorted_reverse xs = foldr insert_desc xs []"

text \<open>The ranking loop over the sorted applicants: \<open>labs\<close> maps a lab key to the rank
  its first applicant received, \<open>rank\<close> is the next unused rank.\<close>

fun rank_walk ::
  "equivs \<Rightarrow> (string \<rightharpoonup> nat) \<Rightarrow> nat \<Rightarrow> (pyval \<times> person) list \<Rightarrow> person list" where
  "rank_walk eq labs rnk [] = []"
| "rank_walk eq labs rnk ((s, p) # ranked) =
     (let lab = lab_key eq p
      in case labs lab of
           None \<Rightarrow>
             p\<lparr>score := Some s, rank := Some rnk\<rparr>
               # rank_walk eq (labs(lab \<mapsto> rnk)) (rnk + 1) ranked
         | Some r \<Rightarrow>
             p\<lparr>score := Some s, rank := Some r\<rparr> # rank_walk eq labs rnk ranked)"

record config =
  formula :: "formula option"
  programming_rating :: "pynum rating_table"
  open_source_rating :: "pynum rating_table"
  python_rating :: "pynum rating_table"
  motivation_sections :: "(string \<rightharpoonup> real) list"
  cv_sections :: "(string \<rightharpoonup> real) list"
  equivs :: equivs

text \<open>\<open>_gradings\<close>: one grading per grader identity, \<open>None\<close> where the grader's
  section has no entry for the applicant.\<close>

definition gradings :: "(string \<rightharpoonup> real) list \<Rightarrow> person \<Rightarrow> real option list" where
  "gradings sections p = map (\<lambda>section. section (fullname p)) sections"

fun score_all :: "config \<Rightarrow> formula \<Rightarrow> pyval \<Rightarrow> pyval \<Rightarrow> person list \<Rightarrow> pyexn + pyval list" where
  "score_all cfg f minsc maxsc [] = Inr []"
| "score_all cfg f minsc maxsc (p # ps) =
     (case rank_person p f (programming_rating cfg) (open_source_rating cfg) (python_rating cfg)
             (gradings (motivation_sections cfg) p) (gradings (cv_sections cfg) p) minsc maxsc of
        Inl e \<Rightarrow> Inl e
      | Inr s \<Rightarrow>
          (case score_all cfg f minsc maxsc ps of
             Inl e \<Rightarrow> Inl e
           | Inr ss \<Rightarrow> Inr (s # ss)))"

text \<open>\<open>_assign_rankings\<close>, returning the applicants in the order of the ranking loop.\<close>

definition assign_rankings :: "config \<Rightarrow> person list \<Rightarrow> pyexn + person list" where
  "assign_rankings cfg applications =
     (case formula cfg of
        None \<Rightarrow> Inl ValueError
      | Some f \<Rightarrow>
          (case find_min_max f (programming_rating cfg) (open_source_rating cfg)
                  (python_rating cfg) of
             Inl e \<Rightarrow> Inl e
           | Inr (minsc, maxsc) \<Rightarrow>
               (case score_all cfg f minsc maxsc applications of
                  Inl e \<Rightarrow> Inl e
                | Inr scores \<Rightarrow>
                    Inr (rank_walk (equivs cfg) Map.empty 0
                           (sorted_reverse (zip scores applications))))))"

section \<open>Group optimizer\<close>

text \<open>
  The plugin \<open>create_groups\<close> works on numpy arrays of floats. A float is modelled by
  the real number it denotes; a run in which numpy would produce nan or an infinity
  (with a warning, not an exception) ends in the outcome \<open>NonFinite\<close> and is not
  followed further. Rounding is not modelled.
\<close>

datatype np_failure = Raised pyexn | NonFinite

type_synonym matrix = "real list list"

text \<open>numpy, its random generator and hashlib are not part of the repository. They are
  parameters of the model: \<open>'g\<close> is the state of the global generator.
  \<open>np_seed L s\<close> is \<open>np.random.seed(s)\<close>, which yields the generator state for the
  seed or raises (numpy 1.26 raises \<open>ValueError\<close> for a seed of \<open>2 ^ 32\<close> or more);
  \<open>np_randint L n g\<close> is \<open>np.random.randint(0, n, 2)\<close>, \<open>sha512_words\<close> the digest
  read as an array of \<open>uint64\<close>.\<close>

record 'g library =
  np_seed :: "64 word \<Rightarrow> pyexn + 'g"
  np_randint :: "nat \<Rightarrow> 'g \<Rightarrow> (nat \<times> nat) \<times> 'g"
  np_rand :: "'g \<Rightarrow> real \<times> 'g"
  np_permutation :: "matrix \<Rightarrow> 'g \<Rightarrow> matrix \<times> 'g"
  np_argsort :: "real list \<Rightarrow> nat list"
  sha512_words :: "string \<Rightarrow> 64 word list"

text \<open>The module-level parameters read from the configuration.\<close>

record settings =
  NSTUDENTS :: nat
  GSIZE :: nat
  TRIALS :: nat
  repetitions :: nat
  seed_string :: string

definition NGROUPS :: "settings \<Rightarrow> nat" where
  "NGROUPS C = NSTUDENTS C div GSIZE C"

text \<open>\<open>data[gslice(i, K)]\<close>: slicing clamps to the length of the array.\<close>

definition gslice :: "nat \<Rightarrow> nat \<Rightarrow> 'a list \<Rightarrow> 'a list" where
  "gslice i K xs = take ((i + 1) * K - i * K) (drop (i * K) xs)"

text \<open>\<open>np.mean\<close> and \<open>np.std\<close> of a one-dimensional array; \<open>None\<close> is nan, the
  result on an empty array.\<close>

definition np_mean :: "real list \<Rightarrow> real option" where
  "np_mean xs = (if xs = [] then None else Some (sum_list xs / real (length xs)))"

definition np_std :: "real list \<Rightarrow> real option" where
  "np_std xs =
     (case np_mean xs of
        None \<Rightarrow> None
      | Some m \<Rightarrow> Some (sqrt (sum_list (map (\<lambda>x. (x - m)\<^sup>2) xs) / real (length xs))))"

text \<open>\<open>energy_mudeviation\<close> receives one column; its argument \<open>mu\<close> is not used by the
  source. The number of groups is the global \<open>NGROUPS\<close>.\<close>

definition energy_mudeviation :: "nat \<Rightarrow> real list \<Rightarrow> nat \<Rightarrow> real \<Rightarrow> real option" where
  "energy_mudeviation ngroups data K mu =
     (case those (map (\<lambda>i. np_mean (gslice i K data)) [0..<ngroups]) of
        None \<Rightarrow> None
      | Some means \<Rightarrow> np_std means)"

definition column :: "nat \<Rightarrow> matrix \<Rightarrow> real list" where
  "column j data = map (\<lambda>row. row ! j) data"

definition rectangular :: "matrix \<Rightarrow> bool" where
  "rectangular data = list_all (\<lambda>row. length row = length (hd data)) data"

text \<open>\<open>np.mean(rated, axis=0)\<close> on a non-empty rectangular list of rows.\<close>

definition mean_axis0 :: "matrix \<Rightarrow> real list" where
  "mean_axis0 rated =
     map (\<lambda>j. sum_list (column j rated) / real (length rated)) [0..<length (hd rated)]"

text \<open>
  \<open>energy\<close> normalises \<open>weights\<close> in place, so the weights are returned with the
  energy. Python's exceptions come first, in the order of the source: \<open>np.mean\<close> of
  the global \<open>rated\<close>, the two assertions on the shape of \<open>data\<close>, the indexing of five
  weights and five columns. An empty list of rows is not a two-dimensional array.
\<close>

definition energy ::
  "nat \<Rightarrow> matrix \<Rightarrow> matrix \<Rightarrow> nat \<Rightarrow> real list \<Rightarrow> np_failure + (real \<times> real list)" where
  "energy ngroups rated data K weights =
     (if rated = [] then Inl (Raised TypeError)
      else if rectangular rated = False then Inl (Raised ValueError)
      else if data = [] then Inl (Raised AssertionError)
      else if rectangular data = False then Inl (Raised AssertionError)
      else if length (hd data) \<noteq> length (mean_axis0 rated) then Inl (Raised AssertionError)
      else if length weights < 5 then Inl (Raised IndexError)
      else if length (hd data) < 5 then Inl (Raised IndexError)
      else if sum_list weights = 0 then Inl NonFinite
      else
        let weights = map (\<lambda>w. w * (1 / sum_list weights)) weights;
            targets = mean_axis0 rated
        in case (energy_mudeviation ngroups (column 0 data) K (targets ! 0),
                 energy_mudeviation ngroups (column 1 data) K (targets ! 1),
                 energy_mudeviation ngroups (column 2 data) K (targets ! 2),
                 energy_mudeviation ngroups (column 3 data) K (targets ! 3),
                 energy_mudeviation ngroups (column 4 data) K (targets ! 4)) of
             (Some e0, Some e1, Some e2, Some e3, Some e4) \<Rightarrow>
               Inr (weights ! 0 * e0 + weights ! 1 * e1 + weights ! 2 * e2
                      + weights ! 3 * e3 + weights ! 4 * e4, weights)
           | _ \<Rightarrow> Inl NonFinite)"

text \<open>\<open>data[idx] = data[idx[::-1]]\<close> with an index array of two rows: the right-hand
  side is a copy, so the two rows are exchanged.\<close>

definition swap_rows :: "nat \<Rightarrow> nat \<Rightarrow> 'a list \<Rightarrow> 'a list" where
  "swap_rows a b data = data[a := data ! b, b := data ! a]"

text \<open>The resampling loop of \<open>optimize\<close>: two indices are drawn until they fall into
  different blocks. The loop need not end; \<open>None\<close> is a run that never returns.
  With \<open>K = 0\<close> numpy's integer division yields 0 on both sides, as \<open>div\<close> does.\<close>

partial_function (option) draw_idx ::
  "'g library \<Rightarrow> nat \<Rightarrow> nat \<Rightarrow> 'g \<Rightarrow> ((nat \<times> nat) \<times> 'g) option" where
  "draw_idx L n K g =
     (case np_randint L n g of
        (idx, g') \<Rightarrow>
          if fst idx div K = snd idx div K then draw_idx L n K g' else Some (idx, g'))"

text \<open>\<open>optimize\<close>, by recursion on the number of repetitions left. The state is the
  array, the weights and the generator. \<open>randint\<close> raises \<open>ValueError\<close> on an empty
  range; an index beyond the last row raises \<open>IndexError\<close>.\<close>

fun optimize ::
  "'g library \<Rightarrow> nat \<Rightarrow> nat \<Rightarrow> matrix \<Rightarrow> nat \<Rightarrow> nat \<Rightarrow> real \<Rightarrow> matrix \<times> real list \<times> 'g \<Rightarrow>
   (np_failure + matrix \<times> real list \<times> 'g) option" where
  "optimize L nstudents ngroups rated 0 K p st = Some (Inr st)"
| "optimize L nstudents ngroups rated (Suc rep) K p (data, weights, g) =
     (if nstudents = 0 then Some (Inl (Raised ValueError))
      else
        case draw_idx L nstudents K g of
          None \<Rightarrow> None
        | Some ((a, b), g1) \<Rightarrow>
            (case energy ngroups rated data K weights of
               Inl e \<Rightarrow> Some (Inl e)
             | Inr (E1, w1) \<Rightarrow>
                 if length data \<le> a then Some (Inl (Raised IndexError))
                 else if length data \<le> b then Some (Inl (Raised IndexError))
                 else
                   (case energy ngroups rated (swap_rows a b data) K w1 of
                      Inl e \<Rightarrow> Some (Inl e)
                    | Inr (E2, w2) \<Rightarrow>
                        if E1 < E2 then
                          optimize L nstudents ngroups rated rep K p
                            (swap_rows a b (swap_rows a b data), w2, g1)
                        else if 0 < p then
                          (case np_rand L g1 of
                             (u, g2) \<Rightarrow>
                               if u < p then
                                 optimize L nstudents ngroups rated rep K p
                                   (swap_rows a b (swap_rows a b data), w2, g2)
                               else
                                 optimize L nstudents ngroups rated rep K p
                                   (swap_rows a b data, w2, g2))
                        else
                          optimize L nstudents ngroups rated rep K p
                            (swap_rows a b data, w2, g1))))"

text \<open>The seed of \<open>main\<close>: the sum of the digest's \<open>uint64\<close> words, floor-divided by
  the number of trials, in \<open>uint64\<close> arithmetic (numpy yields 0 on division by 0, as
  \<open>div\<close> does on words).\<close>

definition random_seed :: "'g library \<Rightarrow> settings \<Rightarrow> 64 word" where
  "random_seed L C = sum_list (sha512_words L (seed_string C)) div word_of_nat (TRIALS C)"

text \<open>The trial loop of \<open>main\<close> over the trial numbers. The state is the weights, the
  generator and the three lists \<open>initial_E_seeds\<close>, \<open>E_seeds\<close> and \<open>data_seeds\<close>.\<close>

fun trials ::
  "'g library \<Rightarrow> settings \<Rightarrow> matrix \<Rightarrow> 64 word \<Rightarrow> nat list \<Rightarrow>
   real list \<times> 'g \<times> real list \<times> real list \<times> matrix list \<Rightarrow>
   (np_failure + real list \<times> 'g \<times> real list \<times> real list \<times> matrix list) option" where
  "trials L C rated rs [] st = Some (Inr st)"
| "trials L C rated rs (i # rest) (weights, g, initial_E_seeds, E_seeds, data_seeds) =
     (case np_seed L (word_of_nat i * rs) of
        Inl e \<Rightarrow> Some (Inl (Raised e))
      | Inr g0 \<Rightarrow>
     (case np_permutation L rated g0 of
        (data, g1) \<Rightarrow>
          (case energy (NGROUPS C) rated data (GSIZE C) weights of
             Inl e \<Rightarrow> Some (Inl e)
           | Inr (E0, w0) \<Rightarrow>
               (case optimize L (NSTUDENTS C) (NGROUPS C) rated (repetitions C) (GSIZE C) 0
                       (data, w0, g1) of
                  None \<Rightarrow> None
                | Some (Inl e) \<Rightarrow> Some (Inl e)
                | Some (Inr (data', w1, g2)) \<Rightarrow>
                    (case energy (NGROUPS C) rated data' (GSIZE C) w1 of
                       Inl e \<Rightarrow> Some (Inl e)
                     | Inr (E1, w2) \<Rightarrow>
                         trials L C rated rs rest
                           (w2, g2, initial_E_seeds @ [E0], E_seeds @ [E1],
                            data_seeds @ [data']))))))"

text \<open>
  \<open>main\<close> on the rated rows that \<open>extract_data\<close> returns (it asserts that there are
  \<open>NSTUDENTS\<close> of them); \<open>g\<close> is the state of the global generator when the script
  starts. The result is the partition the script prints, with the final and the
  initial energies of all trials. \<open>NGROUPS\<close> is computed at module level, where a group
  size of 0 raises \<open>ZeroDivisionError\<close>.
\<close>

definition main :: "'g library \<Rightarrow> settings \<Rightarrow> matrix \<Rightarrow> 'g \<Rightarrow>
    (np_failure + matrix \<times> real list \<times> real list) option" where
  "main L C rated g =
     (if GSIZE C = 0 then Some (Inl (Raised ZeroDivisionError))
      else if length rated \<noteq> NSTUDENTS C then Some (Inl (Raised AssertionError))
      else
        case np_seed L (random_seed L C) of
          Inl e \<Rightarrow> Some (Inl (Raised e))
        | Inr g0 \<Rightarrow>
            (case trials L C rated (random_seed L C) [1..<TRIALS C + 1]
                    ([1, 1, 1, 1, 1], g0, [], [], []) of
               None \<Rightarrow> None
             | Some (Inl e) \<Rightarrow> Some (Inl e)
             | Some (Inr (weights, g', initial_E_seeds, E_seeds, data_seeds)) \<Rightarrow>
                 (case np_argsort L E_seeds of
                    [] \<Rightarrow> Some (Inl (Raised IndexError))
                  | pos0 # _ \<Rightarrow>
                      if length data_seeds \<le> pos0 then Some (Inl (Raised IndexError))
                      else Some (Inr (data_seeds ! pos0, E_seeds, initial_E_seeds)))))"

text \<open>
  The search in the words of the specification: independent trials, each started from
  its own seed, which is a function of the top-level seed and of the trial number. The
  top-level seed is the sum of the digest's words, floor-divided by the number of
  trials; the seed of trial \<open>i\<close> is \<open>i\<close> times the top-level seed, in \<open>uint64\<close>
  arithmetic.
\<close>

definition top_level_seed :: "64 word list \<Rightarrow> nat \<Rightarrow> 64 word" where
  "top_level_seed digest trial_count = sum_list digest div word_of_nat trial_count"

definition trial_seed :: "64 word \<Rightarrow> nat \<Rightarrow> 64 word" where
  "trial_seed top_seed i = word_of_nat i * top_seed"

text \<open>One trial on its own: the generator is seeded, the rows are permuted, and the
  permutation is optimised with the equal weights. The outcome is the initial energy,
  the final energy and the final partition.\<close>

definition single_trial ::
  "'g library \<Rightarrow> settings \<Rightarrow> matrix \<Rightarrow> 64 word \<Rightarrow> (np_failure + real \<times> real \<times> matrix) option" where
  "single_trial L C rated s =
     (case np_seed L s of
        Inl e \<Rightarrow> Some (Inl (Raised e))
      | Inr g0 \<Rightarrow>
     (case np_permutation L rated g0 of
        (data, g1) \<Rightarrow>
          (case energy (NGROUPS C) rated data (GSIZE C) [1, 1, 1, 1, 1] of
             Inl e \<Rightarrow> Some (Inl e)
           | Inr (E0, w0) \<Rightarrow>
               (case optimize L (NSTUDENTS C) (NGROUPS C) rated (repetitions C) (GSIZE C) 0
                       (data, [1, 1, 1, 1, 1], g1) of
                  None \<Rightarrow> None
                | Some (Inl e) \<Rightarrow> Some (Inl e)
                | Some (Inr (data', w1, g2)) \<Rightarrow>
                    (case energy (NGROUPS C) rated data' (GSIZE C) [1, 1, 1, 1, 1] of
                       Inl e \<Rightarrow> Some (Inl e)
                     | Inr (E1, w2) \<Rightarrow> Some (Inr (E0, E1, data')))))))"

text \<open>The trials in their order: the first one that fails or does not return ends the
  search.\<close>

fun in_sequence :: "('e + 'a) option list \<Rightarrow> ('e + 'a list) option" where
  "in_sequence [] = Some (Inr [])"
| "in_sequence (None # rest) = None"
| "in_sequence (Some (Inl e) # rest) = Some (Inl e)"
| "in_sequence (Some (Inr x) # rest) =
     (case in_sequence rest of
        None \<Rightarrow> None
      | Some (Inl e) \<Rightarrow> Some (Inl e)
      | Some (Inr xs) \<Rightarrow> Some (Inr (x # xs)))"

definition main_spec :: "'g library \<Rightarrow> settings \<Rightarrow> matrix \<Rightarrow>
    (np_failure + matrix \<times> real list \<times> real list) option" where
  "main_spec L C rated =
     (let top_seed = top_level_seed (sha512_words L (seed_string C)) (TRIALS C)
      in if GSIZE C = 0 then Some (Inl (Raised ZeroDivisionError))
         else if length rated \<noteq> NSTUDENTS C then Some (Inl (Raised AssertionError))
         else
           case np_seed L top_seed of
             Inl e \<Rightarrow> Some (Inl (Raised e))
           | Inr _ \<Rightarrow>
               (case in_sequence
                       (map (\<lambda>i. single_trial L C rated (trial_seed top_seed i))
                          [1..<TRIALS C + 1]) of
                  None \<Rightarrow> None
                | Some (Inl e) \<Rightarrow> Some (Inl e)
                | Some (Inr results) \<Rightarrow>
                    (case np_argsort L (map (\<lambda>r. fst (snd r)) results) of
                       [] \<Rightarrow> Some (Inl (Raised IndexError))
                     | pos0 # _ \<Rightarrow>
                         if length results \<le> pos0 then Some (Inl (Raised IndexError))
                         else Some (Inr (snd (snd (results ! pos0)),
                                         map (\<lambda>r. fst (snd r)) results,
                                         map fst results)))))"

text \<open>
  The energy in the words of the specification: per feature column the standard
  deviation, across the groups, of the group means, weighted with the feature's weight
  after normalisation, summed over the features (one weight per feature). The groups
  are the consecutive blocks of \<open>K\<close> rows.
\<close>

definition group_means :: "real list \<Rightarrow> nat \<Rightarrow> real list" where
  "group_means col K =
     map (\<lambda>i. sum_list (take K (drop (i * K) col)) / real K) [0..<length col div K]"

definition std_dev :: "real list \<Rightarrow> real" where
  "std_dev xs =
     sqrt (sum_list (map (\<lambda>x. (x - sum_list xs / real (length xs))\<^sup>2) xs) / real (length xs))"

definition energy_spec :: "matrix \<Rightarrow> nat \<Rightarrow> real list \<Rightarrow> real" where
  "energy_spec data K weights =
     (\<Sum>j\<leftarrow>[0..<length weights].
        (weights ! j / sum_list weights) * std_dev (group_means (column j data) K))"

text \<open>Auxiliary to the proofs: the shape checks of \<open>energy\<close> all pass.\<close>

definition shape_ok :: "matrix \<Rightarrow> matrix \<Rightarrow> bool" where
  "shape_ok rated data =
     (rated \<noteq> [] \<and> rectangular rated \<and> data \<noteq> [] \<and> rectangular data
      \<and> length (hd data) = length (mean_axis0 rated) \<and> 5 \<le> length (hd data))"

text \<open>Auxiliary to the proofs: the body of the trial loop of \<open>main\<close>, from the seed of
  the trial and the weights the loop has reached.\<close>

definition trial_body ::
  "'g library \<Rightarrow> settings \<Rightarrow> matrix \<Rightarrow> 64 word \<Rightarrow> real list \<Rightarrow>
   (np_failure + real list \<times> 'g \<times> real \<times> real \<times> matrix) option" where
  "trial_body L C rated s weights =
     (case np_seed L s of
        Inl e \<Rightarrow> Some (Inl (Raised e))
      | Inr g0 \<Rightarrow>
     (case np_permutation L rated g0 of
        (data, g1) \<Rightarrow>
          (case energy (NGROUPS C) rated data (GSIZE C) weights of
             Inl e \<Rightarrow> Some (Inl e)
           | Inr (E0, w0) \<Rightarrow>
               (case optimize L (NSTUDENTS C) (NGROUPS C) rated (repetitions C) (GSIZE C) 0
                       (data, w0, g1) of
                  None \<Rightarrow> None
                | Some (Inl e) \<Rightarrow> Some (Inl e)
                | Some (Inr (data', w1, g2)) \<Rightarrow>
                    (case energy (NGROUPS C) rated data' (GSIZE C) w1 of
                       Inl e \<Rightarrow> Some (Inl e)
                     | Inr (E1, w2) \<Rightarrow> Some (Inr (w2, g2, E0, E1, data')))))))"

text \<open>Auxiliary to the statements: a number other than NaN, and the outcome of the
  formula at every point of the bounds domain, in the order of the search.\<close>

definition is_number :: "pyval \<Rightarrow> bool" where
  "is_number v = (case num_of v of Some x \<Rightarrow> x \<noteq> NaN | None \<Rightarrow> False)"

definition domain_values ::
  "formula \<Rightarrow> pynum rating_table \<Rightarrow> pynum rating_table \<Rightarrow> pynum rating_table \<Rightarrow>
   (pyexn + pyval) list" where
  "domain_values f pr os py =
     map (\<lambda>vs. fst (eval_formula f (dict_of vs))) (options pr os py)"

section \<open>Sample inputs\<close>

text \<open>The formula whose text is the name of one variable, such as \<open>born\<close>: its
  value is that variable's, an unknown name raises \<open>NameError\<close>, and the globals are
  left as they are. (The names used here are not names of builtins.)\<close>

definition formula_var :: "string \<Rightarrow> formula" where
  "formula_var x g =
     (case g x of
        None \<Rightarrow> (Inl NameError, g)
      | Some v \<Rightarrow> (Inr v, g))"

text \<open>The formula \<open>globals().update(born=0) or born\<close>: it rebinds \<open>born\<close> in its
  globals to 0; \<open>update\<close> returns \<open>None\<close>, so the value is that of \<open>born\<close>, now 0.\<close>

definition formula_update_born :: formula where
  "formula_update_born g = (Inr (Integer 0), g(''born'' \<mapsto> Integer 0))"

definition sample_rating :: "pynum rating_table" where
  "sample_rating = [(''none'', Fin 0)]"

definition sample_person :: "string \<Rightarrow> string \<Rightarrow> string \<Rightarrow> string \<Rightarrow> person" where
  "sample_person first year inst grp =
     \<lparr>name = first, lastname = ''Doe'', email = ''doe@example.org'', nation = ''France'',
      born = year, gender = ''Female'', institute = inst, group = grp, country = ''France'',
      applied = ''No'', programming = ''none'', python = ''none'', open_source = ''none'',
      score = None, rank = None\<rparr>"

text \<open>A configuration whose formula is \<open>motivation\<close>: the first grader has graded
  the applicants A, B and C with 0.9, 0.85 and 0.7, the second has graded nobody, and
  there are no equivalences.\<close>

definition sample_config :: config where
  "sample_config =
     \<lparr>formula = Some (formula_var ''motivation''),
      programming_rating = sample_rating, open_source_rating = sample_rating,
      python_rating = sample_rating,
      motivation_sections =
        [[''A Doe'' \<mapsto> 9 / 10, ''B Doe'' \<mapsto> 85 / 100, ''C Doe'' \<mapsto> 7 / 10], Map.empty],
      cv_sections = [Map.empty, Map.empty],
      equivs = []\<rparr>"

text \<open>Four rated applicants (five feature columns and the index column), a generator
  that is a counter, and the parameters for one trial of one repetition on groups of
  two.\<close>

definition sample_rated :: matrix where
  "sample_rated =
     [[0, 0, 0, 0, 0, 0], [0, 0, 0, 0, 0, 1], [2, 0, 0, 0, 0, 2], [2, 0, 0, 0, 0, 3]]"

definition sample_library :: "nat library" where
  "sample_library =
     \<lparr>np_seed = (\<lambda>s. Inr (unat s)),
      np_randint = (\<lambda>n g. ((g mod n, n - 1 - g mod n), g + 1)),
      np_rand = (\<lambda>g. (1 / 2, g + 1)),
      np_permutation = (\<lambda>m g. (rev m, g + 1)),
      np_argsort = (\<lambda>es. sort_key (\<lambda>i. es ! i) [0..<length es]),
      sha512_words = (\<lambda>s. [word_of_nat (length s)])\<rparr>"

definition sample_settings :: settings where
  "sample_settings =
     \<lparr>NSTUDENTS = 4, GSIZE = 2, TRIALS = 1, repetitions = 1, seed_string = ''2012''\<rparr>"

section \<open>Properties of the rating resolver\<close>

text \<open>Auxiliary to the proofs: the two characters at which \<open>get_rating\<close> cuts a label.\<close>

definition key_stop :: "char \<Rightarrow> bool" where
  "key_stop c = (c = CHR ''/'' \<or> c = CHR ''('')"

lemma takeWhile_twice: "takeWhile P (takeWhile Q xs) = takeWhile (\<lambda>x. P x \<and> Q x) xs"
  by (induction xs) auto

lemma partition_heads_eq:
  "partition_head (CHR ''/'') (partition_head (CHR ''('') s) = takeWhile (\<lambda>c. \<not> key_stop c) s"
  by (simp add: partition_head_def takeWhile_twice key_stop_def)

lemma key_stop_not_space: "key_stop c \<Longrightarrow> \<not> is_space c"
  by (auto simp: key_stop_def is_space_def)

lemma takeWhile_dropWhile_space:
  "takeWhile (\<lambda>c. \<not> key_stop c) (dropWhile is_space s)
     = dropWhile is_space (takeWhile (\<lambda>c. \<not> key_stop c) s)"
  by (induction s) (auto dest: key_stop_not_space)

lemma takeWhile_append_stop:
  "key_stop c \<Longrightarrow> takeWhile (\<lambda>c. \<not> key_stop c) (p @ c # r) = takeWhile (\<lambda>c. \<not> key_stop c) p"
  by (induction p) auto

lemma rstrip_before_cut:
  "rev (dropWhile is_space (rev (takeWhile (\<lambda>c. \<not> key_stop c) (rev (dropWhile is_space (rev s))))))
   = rev (dropWhile is_space (rev (takeWhile (\<lambda>c. \<not> key_stop c) s)))"
proof (cases "\<exists>c \<in> set s. key_stop c")
  case True
  then obtain a c b where s: "s = a @ c # b" and c: "key_stop c"
    by (metis split_list_first_prop)
  have "rev (dropWhile is_space (rev s)) = a @ c # rev (dropWhile is_space (rev b))"
    using c by (auto simp: s dropWhile_append dest: key_stop_not_space)
  then show ?thesis using c by (simp add: s takeWhile_append_stop)
next
  case False
  then have 1: "takeWhile (\<lambda>c. \<not> key_stop c) s = s"
    by simp
  have "set (rev (dropWhile is_space (rev s))) \<subseteq> set s"
    by (metis set_dropWhileD set_rev subsetI)
  with False have 2: "takeWhile (\<lambda>c. \<not> key_stop c) (rev (dropWhile is_space (rev s)))
      = rev (dropWhile is_space (rev s))"
    by auto
  show ?thesis unfolding 1 2 by simp
qed

lemma rstrip_Cons:
  "\<not> is_space c \<Longrightarrow> rev (dropWhile is_space (rev (c # x))) = c # rev (dropWhile is_space (rev x))"
  by (auto simp: dropWhile_append)

lemma lstrip_takeWhile_rstrip:
  assumes "x = dropWhile is_space s"
  shows "dropWhile is_space (takeWhile (\<lambda>c. \<not> key_stop c) (rev (dropWhile is_space (rev x))))
         = takeWhile (\<lambda>c. \<not> key_stop c) (rev (dropWhile is_space (rev x)))"
proof (cases x)
  case Nil
  then show ?thesis by simp
next
  case (Cons c x')
  have nsp: "\<not> is_space c"
    using assms Cons by (metis hd_dropWhile list.distinct(1) list.sel(1))
  show ?thesis unfolding Cons rstrip_Cons [OF nsp] using nsp by simp
qed

lemma canon_strip:
  "strip (takeWhile (\<lambda>c. \<not> key_stop c) (strip s)) = strip (takeWhile (\<lambda>c. \<not> key_stop c) s)"
proof -
  let ?x = "dropWhile is_space s"
  have "strip (takeWhile (\<lambda>c. \<not> key_stop c) (strip s))
        = rev (dropWhile is_space (rev (takeWhile (\<lambda>c. \<not> key_stop c)
            (rev (dropWhile is_space (rev ?x))))))"
    unfolding strip_def using lstrip_takeWhile_rstrip [of ?x s] by simp
  also have "\<dots> = rev (dropWhile is_space (rev (takeWhile (\<lambda>c. \<not> key_stop c) ?x)))"
    by (rule rstrip_before_cut)
  also have "\<dots> = strip (takeWhile (\<lambda>c. \<not> key_stop c) s)"
    by (simp add: strip_def takeWhile_dropWhile_space)
  finally show ?thesis .
qed

lemma key_suffix:
  assumes "c = CHR ''('' \<or> c = CHR ''/''"
  shows "strip (partition_head (CHR ''/'') (partition_head (CHR ''('') (p @ c # rest)))
       = strip (partition_head (CHR ''/'') (partition_head (CHR ''('') (strip p)))"
proof -
  have "key_stop c" using assms by (auto simp: key_stop_def)
  then show ?thesis
    unfolding partition_heads_eq by (simp only: takeWhile_append_stop canon_strip)
qed

text \<open>
  C8. A label that continues after its prefix with a parenthesised explanation or with
  a slash and a variant resolves exactly as the prefix with its surrounding whitespace
  trimmed: the same value, the same fallback, or \<open>MissingRating\<close> with the same
  category and the same canonical key.
\<close>

theorem get_rating_suffix_ignored:
  assumes "c = CHR ''('' \<or> c = CHR ''/''"
  shows "get_rating category dict (p @ c # rest) fb = get_rating category dict (strip p) fb"
  unfolding get_rating_def key_suffix [OF assms] ..

theorem get_rating_suffix_ignored_witness:
  "get_rating ''python'' [(''expert'', Fin 1)] ('' expert '' @ CHR ''('' # ''ten years)'') None
     = get_rating ''python'' [(''expert'', Fin 1)] (strip '' expert '') None
   \<and> get_rating ''python'' [(''expert'', Fin 1)] (strip '' expert '') None = Inr (Fin 1)
   \<and> get_rating ''python'' [(''expert'', Fin 1)] (''novice'' @ CHR ''/'' # ''beginner'') None
     = Inl (MissingRating ''python'' ''novice'')"
  using get_rating_suffix_ignored [of "CHR ''(''" "''python''" "[(''expert'', Fin 1)]"
      "'' expert ''" "''ten years)''" None]
    get_rating_suffix_ignored [of "CHR ''/''" "''python''" "[(''expert'', Fin 1)]"
      "''novice''" "''beginner''" None]
  by (simp add: get_rating_def strip_def is_space_def partition_head_def)

section \<open>Properties of the score bounds\<close>

lemma py_le_refl: "x \<noteq> NaN \<Longrightarrow> py_le x x"
  by (cases x) auto

lemma py_le_trans: "py_le x y \<Longrightarrow> py_le y z \<Longrightarrow> py_le x z"
  by (cases x; cases y; cases z) auto

lemma py_lt_imp_le: "py_lt x y \<Longrightarrow> py_le x y"
  by (cases x; cases y) auto

lemma py_not_lt_le: "x \<noteq> NaN \<Longrightarrow> y \<noteq> NaN \<Longrightarrow> \<not> py_lt x y \<Longrightarrow> py_le y x"
  by (cases x; cases y) auto

lemma py_le_antisym: "py_le x y \<Longrightarrow> py_le y x \<Longrightarrow> x = y"
  by (cases x; cases y) auto

lemma is_number_num: "is_number v \<Longrightarrow> \<exists>x. num_of v = Some x \<and> x \<noteq> NaN"
  by (auto simp: is_number_def split: option.splits)

lemma val_lt_number:
  "is_number a \<Longrightarrow> is_number b \<Longrightarrow> val_lt a b = Inr (py_lt (the (num_of a)) (the (num_of b)))"
  by (auto simp: val_lt_def dest!: is_number_num)

lemma val_le_number:
  "is_number a \<Longrightarrow> is_number b \<Longrightarrow> val_le a b = Inr (py_le (the (num_of a)) (the (num_of b)))"
  by (auto simp: val_le_def dest!: is_number_num)

lemma number_not_NaN: "is_number a \<Longrightarrow> the (num_of a) \<noteq> NaN"
  by (auto dest!: is_number_num)

lemma py_min_from_numbers:
  assumes "is_number b" "\<forall>x \<in> set xs. is_number x"
  shows "\<exists>m. py_min_from b xs = Inr m \<and> m \<in> set (b # xs) \<and> val_le m b = Inr True
           \<and> (\<forall>x \<in> set xs. val_le m x = Inr True)"
  using assms
proof (induction xs arbitrary: b)
  case Nil
  then show ?case by (simp add: val_le_number py_le_refl number_not_NaN)
next
  case (Cons x xs)
  have nx: "is_number x" and nb: "is_number b" and nxs: "\<forall>y \<in> set xs. is_number y"
    using Cons.prems by simp_all
  let ?n = "\<lambda>v. the (num_of v)"
  show ?case
  proof (cases "py_lt (?n x) (?n b)")
    case True
    then have step: "py_min_from b (x # xs) = py_min_from x xs"
      by (simp add: val_lt_number [OF nx nb])
    from Cons.IH [OF nx nxs] obtain m where
      m: "py_min_from x xs = Inr m" "m \<in> set (x # xs)" "val_le m x = Inr True"
        "\<forall>y \<in> set xs. val_le m y = Inr True" by blast
    have nm: "is_number m" using m(2) nx nxs by auto
    have "py_le (?n m) (?n x)" using m(3) by (simp add: val_le_number [OF nm nx])
    then have "py_le (?n m) (?n b)" using True by (blast intro: py_le_trans py_lt_imp_le)
    then have mb: "val_le m b = Inr True" by (simp add: val_le_number [OF nm nb])
    from m mb show ?thesis unfolding step by auto
  next
    case False
    then have step: "py_min_from b (x # xs) = py_min_from b xs"
      by (simp add: val_lt_number [OF nx nb])
    from Cons.IH [OF nb nxs] obtain m where
      m: "py_min_from b xs = Inr m" "m \<in> set (b # xs)" "val_le m b = Inr True"
        "\<forall>y \<in> set xs. val_le m y = Inr True" by blast
    have nm: "is_number m" using m(2) nb nxs by auto
    have "py_le (?n m) (?n b)" using m(3) by (simp add: val_le_number [OF nm nb])
    moreover have "py_le (?n b) (?n x)"
      using False by (intro py_not_lt_le number_not_NaN nx nb)
    ultimately have "py_le (?n m) (?n x)" by (rule py_le_trans)
    then have mx: "val_le m x = Inr True" by (simp add: val_le_number [OF nm nx])
    from m mx show ?thesis unfolding step by auto
  qed
qed

lemma py_max_from_numbers:
  assumes "is_number b" "\<forall>x \<in> set xs. is_number x"
  shows "\<exists>m. py_max_from b xs = Inr m \<and> m \<in> set (b # xs) \<and> val_le b m = Inr True
           \<and> (\<forall>x \<in> set xs. val_le x m = Inr True)"
  using assms
proof (induction xs arbitrary: b)
  case Nil
  then show ?case by (simp add: val_le_number py_le_refl number_not_NaN)
next
  case (Cons x xs)
  have nx: "is_number x" and nb: "is_number b" and nxs: "\<forall>y \<in> set xs. is_number y"
    using Cons.prems by simp_all
  let ?n = "\<lambda>v. the (num_of v)"
  show ?case
  proof (cases "py_lt (?n b) (?n x)")
    case True
    then have step: "py_max_from b (x # xs) = py_max_from x xs"
      by (simp add: val_lt_number [OF nb nx])
    from Cons.IH [OF nx nxs] obtain m where
      m: "py_max_from x xs = Inr m" "m \<in> set (x # xs)" "val_le x m = Inr True"
        "\<forall>y \<in> set xs. val_le y m = Inr True" by blast
    have nm: "is_number m" using m(2) nx nxs by auto
    have "py_le (?n x) (?n m)" using m(3) by (simp add: val_le_number [OF nx nm])
    then have "py_le (?n b) (?n m)" using True by (blast intro: py_le_trans py_lt_imp_le)
    then have mb: "val_le b m = Inr True" by (simp add: val_le_number [OF nb nm])
    from m mb show ?thesis unfolding step by auto
  next
    case False
    then have step: "py_max_from b (x # xs) = py_max_from b xs"
      by (simp add: val_lt_number [OF nb nx])
    from Cons.IH [OF nb nxs] obtain m where
      m: "py_max_from b xs = Inr m" "m \<in> set (b # xs)" "val_le b m = Inr True"
        "\<forall>y \<in> set xs. val_le y m = Inr True" by blast
    have nm: "is_number m" using m(2) nb nxs by auto
    have "py_le (?n b) (?n m)" using m(3) by (simp add: val_le_number [OF nb nm])
    moreover have "py_le (?n x) (?n b)"
      using False by (intro py_not_lt_le number_not_NaN nx nb)
    ultimately have "py_le (?n x) (?n m)" by (rule py_le_trans [rotated])
    then have mx: "val_le x m = Inr True" by (simp add: val_le_number [OF nx nm])
    from m mx show ?thesis unfolding step by auto
  qed
qed

lemma eval_all_Inr: "(eval_all f os = Inr vs) = (map (\<lambda>vs. fst (eval_formula f (dict_of vs))) os = map Inr vs)"
proof (induction os arbitrary: vs)
  case Nil
  then show ?case by auto
next
  case (Cons a os)
  show ?case
  proof (cases "fst (eval_formula f (dict_of a))")
    case (Inl e)
    then show ?thesis by (auto simp: Cons_eq_map_conv)
  next
    case (Inr v)
    show ?thesis
    proof (cases "eval_all f os")
      case (Inl e)
      have "map (\<lambda>vs. fst (eval_formula f (dict_of vs))) os \<noteq> map Inr zs" for zs
        using Cons.IH [of zs] Inl by simp
      then show ?thesis using Inl Inr by (auto simp: Cons_eq_map_conv)
    next
      case r: (Inr ws)
      then have "map (\<lambda>vs. fst (eval_formula f (dict_of vs))) os = map Inr ws"
        using Cons.IH [of ws] by simp
      then show ?thesis using r Inr by (auto simp: Cons_eq_map_conv)
    qed
  qed
qed

lemma product_lists_Nil: "(product_lists xss = []) = ([] \<in> set xss)"
  by (induction xss) auto

lemma options_Nil: "(options pr os py = []) = (pr = [] \<or> os = [] \<or> py = [])"
  unfolding options_def product_lists_Nil yield_values_def SCORE_RANGE_def by auto

lemma yield_values_mem: "z \<in> set (yield_values k vals) \<Longrightarrow> \<exists>v. z = (k, v) \<and> v \<in> set vals"
  by (auto simp: yield_values_def)

lemma options_shape:
  assumes "vs \<in> set (options pr os py)"
  shows "\<exists>b g fe n c m cv p osv a pyv.
      vs = [(''born'', b), (''gender'', g), (''female'', fe), (''nation'', n), (''country'', c),
            (''motivation'', m), (''cv'', cv), (''programming'', p), (''open_source'', osv),
            (''applied'', a), (''python'', pyv)]
      \<and> b \<in> set [Integer 1900, Integer 2012] \<and> g \<in> set [Str ''M'', Str ''F'']
      \<and> fe \<in> set [Integer 0, Integer 1]
      \<and> n \<in> set [Str ''Nicaragua'', Str HOST_COUNTRY] \<and> c \<in> set [Str ''Nicaragua'', Str HOST_COUNTRY]
      \<and> m \<in> set SCORE_RANGE \<and> cv \<in> set SCORE_RANGE
      \<and> p \<in> set (map (Float \<circ> snd) pr) \<and> osv \<in> set (map (Float \<circ> snd) os)
      \<and> a \<in> set [Integer 0, Integer 1] \<and> pyv \<in> set (map (Float \<circ> snd) py)"
proof -
  from assms have "list_all2 (\<lambda>x ys. x \<in> set ys) vs
       [yield_values ''born'' [Integer 1900, Integer 2012],
        yield_values ''gender'' [Str ''M'', Str ''F''],
        yield_values ''female'' [Integer 0, Integer 1],
        yield_values ''nation'' [Str ''Nicaragua'', Str HOST_COUNTRY],
        yield_values ''country'' [Str ''Nicaragua'', Str HOST_COUNTRY],
        yield_values ''motivation'' SCORE_RANGE,
        yield_values ''cv'' SCORE_RANGE,
        yield_values ''programming'' (map (Float \<circ> snd) pr),
        yield_values ''open_source'' (map (Float \<circ> snd) os),
        yield_values ''applied'' [Integer 0, Integer 1],
        yield_values ''python'' (map (Float \<circ> snd) py)]"
    unfolding options_def product_lists_set by (rule CollectD)
  then obtain z1 z2 z3 z4 z5 z6 z7 z8 z9 z10 z11 where
    vs: "vs = [z1, z2, z3, z4, z5, z6, z7, z8, z9, z10, z11]"
    and z: "z1 \<in> set (yield_values ''born'' [Integer 1900, Integer 2012])"
      "z2 \<in> set (yield_values ''gender'' [Str ''M'', Str ''F''])"
      "z3 \<in> set (yield_values ''female'' [Integer 0, Integer 1])"
      "z4 \<in> set (yield_values ''nation'' [Str ''Nicaragua'', Str HOST_COUNTRY])"
      "z5 \<in> set (yield_values ''country'' [Str ''Nicaragua'', Str HOST_COUNTRY])"
      "z6 \<in> set (yield_values ''motivation'' SCORE_RANGE)"
      "z7 \<in> set (yield_values ''cv'' SCORE_RANGE)"
      "z8 \<in> set (yield_values ''programming'' (map (Float \<circ> snd) pr))"
      "z9 \<in> set (yield_values ''open_source'' (map (Float \<circ> snd) os))"
      "z10 \<in> set (yield_values ''applied'' [Integer 0, Integer 1])"
      "z11 \<in> set (yield_values ''python'' (map (Float \<circ> snd) py))"
    unfolding list_all2_Cons2 list_all2_Nil2 by blast
  from z [THEN yield_values_mem] vs show ?thesis by blast
qed

lemma find_min_max_empty:
  "pr = [] \<or> os = [] \<or> py = [] \<Longrightarrow> find_min_max f pr os py = Inr (Float NaN, Float NaN)"
  using options_Nil [of pr os py] by (simp add: find_min_max_def)

lemma domain_values_Nil: "(domain_values f pr os py = []) = (pr = [] \<or> os = [] \<or> py = [])"
  by (simp add: domain_values_def options_Nil)

lemma all_Inr_map: "\<forall>r \<in> set xs. \<exists>x. r = Inr x \<Longrightarrow> \<exists>vs. xs = map Inr vs"
proof (induction xs)
  case Nil
  then show ?case by simp
next
  case (Cons a xs)
  then obtain x vs where "a = Inr x" "xs = map Inr vs" by auto
  then have "a # xs = map Inr (x # vs)" by simp
  then show ?case by (rule exI)
qed

lemma find_min_max_exact:
  assumes ne: "pr \<noteq> []" "os \<noteq> []" "py \<noteq> []"
    and ok: "\<forall>r \<in> set (domain_values f pr os py). \<exists>x. r = Inr x \<and> is_number x"
  shows "\<exists>mn mx. find_min_max f pr os py = Inr (mn, mx)
           \<and> Inr mn \<in> set (domain_values f pr os py) \<and> Inr mx \<in> set (domain_values f pr os py)
           \<and> (\<forall>x. Inr x \<in> set (domain_values f pr os py) \<longrightarrow>
                 val_le mn x = Inr True \<and> val_le x mx = Inr True)"
proof -
  let ?D = "domain_values f pr os py"
  have "\<forall>r \<in> set ?D. \<exists>x. r = Inr x" using ok by blast
  then obtain vs where vs: "?D = map Inr vs"
    using all_Inr_map by blast
  then have ev: "eval_all f (options pr os py) = Inr vs"
    by (simp add: eval_all_Inr domain_values_def)
  have nn: "\<forall>v \<in> set vs. is_number v" using ok vs by auto
  have "vs \<noteq> []" using ne vs domain_values_Nil [of f pr os py] by auto
  then obtain v ws where c: "vs = v # ws" by (cases vs) auto
  have v: "is_number v" and ws: "\<forall>x \<in> set ws. is_number x" using nn c by simp_all
  from py_min_from_numbers [OF v ws] obtain mn where
    mn: "py_min_from v ws = Inr mn" "mn \<in> set (v # ws)" "val_le mn v = Inr True"
      "\<forall>x \<in> set ws. val_le mn x = Inr True" by blast
  from py_max_from_numbers [OF v ws] obtain mx where
    mx: "py_max_from v ws = Inr mx" "mx \<in> set (v # ws)" "val_le v mx = Inr True"
      "\<forall>x \<in> set ws. val_le x mx = Inr True" by blast
  have fm: "find_min_max f pr os py = Inr (mn, mx)"
    by (simp add: find_min_max_def ev c mn(1) mx(1))
  have set: "Inr x \<in> set ?D \<longleftrightarrow> x \<in> set vs" for x
    unfolding vs by auto
  have 1: "Inr mn \<in> set ?D"
    using mn(2) by (simp only: set c)
  have 2: "Inr mx \<in> set ?D"
    using mx(2) by (simp only: set c)
  have 3: "val_le mn x = Inr True \<and> val_le x mx = Inr True" if "Inr x \<in> set ?D" for x
  proof -
    from that have x: "x \<in> set (v # ws)" by (simp only: set c)
    show ?thesis
    proof (cases "x = v")
      case True
      then show ?thesis using mn(3) mx(3) by simp
    next
      case False
      then have "x \<in> set ws" using x by simp
      then show ?thesis using mn(4) mx(4) by blast
    qed
  qed
  from fm 1 2 3 show ?thesis by blast
qed

lemma find_min_max_range:
  assumes ne: "pr \<noteq> []" "os \<noteq> []" "py \<noteq> []"
    and D: "set (domain_values f pr os py) = Inr ` S"
    and S: "\<forall>x \<in> S. is_number x" "inj_on num_of S" "lo \<in> S" "hi \<in> S"
      "\<forall>x \<in> S. val_le lo x = Inr True \<and> val_le x hi = Inr True"
  shows "find_min_max f pr os py = Inr (lo, hi)"
proof -
  have ok: "\<forall>r \<in> set (domain_values f pr os py). \<exists>x. r = Inr x \<and> is_number x"
    unfolding D using S(1) by auto
  from find_min_max_exact [OF ne ok] obtain mn mx where
    fm: "find_min_max f pr os py = Inr (mn, mx)"
    and mem: "Inr mn \<in> set (domain_values f pr os py)" "Inr mx \<in> set (domain_values f pr os py)"
    and bd: "\<forall>x. Inr x \<in> set (domain_values f pr os py) \<longrightarrow>
               val_le mn x = Inr True \<and> val_le x mx = Inr True"
    by blast
  from mem have m: "mn \<in> S" "mx \<in> S" unfolding D by auto
  have eq: "a = b" if "a \<in> S" "b \<in> S" "val_le a b = Inr True" "val_le b a = Inr True" for a b
  proof -
    have n: "is_number a" "is_number b" using that S(1) by auto
    have "py_le (the (num_of a)) (the (num_of b))" "py_le (the (num_of b)) (the (num_of a))"
      using that(3,4) by (simp_all add: val_le_number n)
    then have "the (num_of a) = the (num_of b)" by (rule py_le_antisym)
    then have "num_of a = num_of b" using n by (auto dest!: is_number_num)
    then show ?thesis using S(2) that(1,2) by (auto dest: inj_onD)
  qed
  from bd have "val_le mn lo = Inr True" "val_le hi mx = Inr True" unfolding D using S by auto
  with m S have "mn = lo" "mx = hi" by (auto intro: eq)
  with fm show ?thesis by simp
qed

lemma yield_values_memI: "v \<in> set vals \<Longrightarrow> (k, v) \<in> set (yield_values k vals)"
  by (auto simp: yield_values_def)

lemma options_member:
  assumes "b \<in> set [Integer 1900, Integer 2012]" "g \<in> set [Str ''M'', Str ''F'']"
    "fe \<in> set [Integer 0, Integer 1]"
    "n \<in> set [Str ''Nicaragua'', Str HOST_COUNTRY]" "c \<in> set [Str ''Nicaragua'', Str HOST_COUNTRY]"
    "m \<in> set SCORE_RANGE" "cv \<in> set SCORE_RANGE"
    "p \<in> set (map (Float \<circ> snd) pr)" "osv \<in> set (map (Float \<circ> snd) os)"
    "a \<in> set [Integer 0, Integer 1]" "pyv \<in> set (map (Float \<circ> snd) py)"
  shows "[(''born'', b), (''gender'', g), (''female'', fe), (''nation'', n), (''country'', c),
          (''motivation'', m), (''cv'', cv), (''programming'', p), (''open_source'', osv),
          (''applied'', a), (''python'', pyv)] \<in> set (options pr os py)"
  unfolding options_def product_lists_set
  using assms [THEN yield_values_memI] by (simp only: mem_Collect_eq list_all2_Cons list_all2_Nil simp_thms)

lemma eval_formula_var:
  "x \<noteq> ''__builtins__'' \<Longrightarrow>
   fst (eval_formula (formula_var x) vars) =
     (case vars x of None \<Rightarrow> Inl ValueError | Some v \<Rightarrow> Inr v)"
  by (simp add: eval_formula_def py_eval_def formula_var_def split: option.splits)

lemma dict_of_shape:
  "dict_of [(''born'', b), (''gender'', g), (''female'', fe), (''nation'', n), (''country'', c),
          (''motivation'', m), (''cv'', cv), (''programming'', p), (''open_source'', osv),
          (''applied'', a), (''python'', pyv)]
   = [''born'' \<mapsto> b, ''gender'' \<mapsto> g, ''female'' \<mapsto> fe, ''nation'' \<mapsto> n, ''country'' \<mapsto> c,
      ''motivation'' \<mapsto> m, ''cv'' \<mapsto> cv, ''programming'' \<mapsto> p, ''open_source'' \<mapsto> osv,
      ''applied'' \<mapsto> a, ''python'' \<mapsto> pyv]"
  by (simp add: dict_of_def)

lemma domain_values_var:
  assumes x: "x \<noteq> ''__builtins__''"
    and sub: "\<And>vs. vs \<in> set (options pr os py) \<Longrightarrow> \<exists>v \<in> S. dict_of vs x = Some v"
    and sup: "\<And>v. v \<in> S \<Longrightarrow> \<exists>vs \<in> set (options pr os py). dict_of vs x = Some v"
  shows "set (domain_values (formula_var x) pr os py) = Inr ` S"
proof (intro equalityI subsetI)
  fix r :: "pyexn + pyval"
  assume "r \<in> set (domain_values (formula_var x) pr os py)"
  then obtain vs where vs: "vs \<in> set (options pr os py)"
    and r: "r = fst (eval_formula (formula_var x) (dict_of vs))"
    by (auto simp: domain_values_def)
  from sub [OF vs] obtain v where "v \<in> S" "dict_of vs x = Some v" by blast
  then show "r \<in> Inr ` S" unfolding r by (simp add: eval_formula_var [OF x])
next
  fix r :: "pyexn + pyval"
  assume "r \<in> Inr ` S"
  then obtain v where v: "v \<in> S" and r: "r = Inr v" by blast
  from sup [OF v] obtain vs where vs: "vs \<in> set (options pr os py)"
    and d: "dict_of vs x = Some v" by blast
  have "fst (eval_formula (formula_var x) (dict_of vs)) = Inr v"
    by (simp add: eval_formula_var [OF x] d)
  then show "r \<in> set (domain_values (formula_var x) pr os py)"
    unfolding r domain_values_def using vs by force
qed

lemma rating_value_exists: "pr \<noteq> [] \<Longrightarrow> \<exists>p. p \<in> set (map (Float \<circ> snd) pr)"
  by (cases pr) auto

lemma options_point:
  assumes "p \<in> set (map (Float \<circ> snd) pr)" "osv \<in> set (map (Float \<circ> snd) os)"
      "pyv \<in> set (map (Float \<circ> snd) py)"
    and "b \<in> set [Integer 1900, Integer 2012]" "fe \<in> set [Integer 0, Integer 1]"
       "m \<in> set SCORE_RANGE"
  shows "[(''born'', b), (''gender'', Str ''M''), (''female'', fe), (''nation'', Str ''Nicaragua''),
      (''country'', Str ''Nicaragua''), (''motivation'', m), (''cv'', Integer 0),
      (''programming'', p), (''open_source'', osv), (''applied'', Integer 0), (''python'', pyv)]
     \<in> set (options pr os py)"
  by (rule options_member) (use assms in \<open>simp_all add: SCORE_RANGE_def\<close>)

lemma options_lookup:
  assumes "vs \<in> set (options pr os py)"
  shows "\<exists>b fe m. b \<in> set [Integer 1900, Integer 2012] \<and> dict_of vs ''born'' = Some b
     \<and> fe \<in> set [Integer 0, Integer 1] \<and> dict_of vs ''female'' = Some fe
     \<and> m \<in> set SCORE_RANGE \<and> dict_of vs ''motivation'' = Some m"
proof -
  from options_shape [OF assms] obtain b g fe n c m cv p osv a pyv where
    sh: "vs = [(''born'', b), (''gender'', g), (''female'', fe), (''nation'', n), (''country'', c),
            (''motivation'', m), (''cv'', cv), (''programming'', p), (''open_source'', osv),
            (''applied'', a), (''python'', pyv)]"
    and b: "b \<in> set [Integer 1900, Integer 2012]"
    and fe: "fe \<in> set [Integer 0, Integer 1]"
    and m: "m \<in> set SCORE_RANGE"
    by (elim exE conjE) (rule that, assumption+)
  have "dict_of vs ''born'' = Some b" "dict_of vs ''female'' = Some fe"
    "dict_of vs ''motivation'' = Some m"
    unfolding sh dict_of_shape by simp_all
  with b fe m show ?thesis by blast
qed

lemma options_point_lookup:
  assumes ne: "pr \<noteq> []" "os \<noteq> []" "py \<noteq> []"
    and v: "b \<in> set [Integer 1900, Integer 2012]" "fe \<in> set [Integer 0, Integer 1]"
       "m \<in> set SCORE_RANGE"
  shows "\<exists>vs. vs \<in> set (options pr os py) \<and> dict_of vs ''born'' = Some b
     \<and> dict_of vs ''female'' = Some fe \<and> dict_of vs ''motivation'' = Some m"
proof -
  from rating_value_exists [OF ne(1)] obtain p where p: "p \<in> set (map (Float \<circ> snd) pr)" ..
  from rating_value_exists [OF ne(2)] obtain osv where o: "osv \<in> set (map (Float \<circ> snd) os)" ..
  from rating_value_exists [OF ne(3)] obtain pyv where y: "pyv \<in> set (map (Float \<circ> snd) py)" ..
  let ?vs = "[(''born'', b), (''gender'', Str ''M''), (''female'', fe),
      (''nation'', Str ''Nicaragua''), (''country'', Str ''Nicaragua''),
      (''motivation'', m), (''cv'', Integer 0),
      (''programming'', p), (''open_source'', osv), (''applied'', Integer 0), (''python'', pyv)]"
  have 1: "?vs \<in> set (options pr os py)"
    by (rule options_point [OF p o y v])
  have 2: "dict_of ?vs ''born'' = Some b" "dict_of ?vs ''female'' = Some fe"
    "dict_of ?vs ''motivation'' = Some m"
    unfolding dict_of_shape by simp_all
  from 1 2 show ?thesis by (intro exI conjI)
qed

lemma domain_values_born:
  assumes ne: "pr \<noteq> []" "os \<noteq> []" "py \<noteq> []"
  shows "set (domain_values (formula_var ''born'') pr os py) = Inr ` {Integer 1900, Integer 2012}"
proof (rule domain_values_var [where S = "{Integer 1900, Integer 2012}"])
  show "''born'' \<noteq> ''__builtins__''" by simp
next
  fix vs assume "vs \<in> set (options pr os py)"
  from options_lookup [OF this] obtain b where
    "b \<in> set [Integer 1900, Integer 2012]" "dict_of vs ''born'' = Some b" by blast
  then show "\<exists>v\<in>{Integer 1900, Integer 2012}. dict_of vs ''born'' = Some v" by auto
next
  fix v :: pyval assume v: "v \<in> {Integer 1900, Integer 2012}"
  then have "v \<in> set [Integer 1900, Integer 2012]" by auto
  from options_point_lookup [OF ne this, of "Integer 0" "Integer 0"]
  show "\<exists>vs\<in>set (options pr os py). dict_of vs ''born'' = Some v"
    by (auto simp: SCORE_RANGE_def)
qed

lemma find_min_max_born:
  assumes "pr \<noteq> []" "os \<noteq> []" "py \<noteq> []"
  shows "find_min_max (formula_var ''born'') pr os py = Inr (Integer 1900, Integer 2012)"
  by (rule find_min_max_range [OF assms domain_values_born [OF assms]])
    (auto simp: is_number_def val_le_def)

lemma domain_values_female:
  assumes ne: "pr \<noteq> []" "os \<noteq> []" "py \<noteq> []"
  shows "set (domain_values (formula_var ''female'') pr os py) = Inr ` {Integer 0, Integer 1}"
proof (rule domain_values_var [where S = "{Integer 0, Integer 1}"])
  show "''female'' \<noteq> ''__builtins__''" by simp
next
  fix vs assume "vs \<in> set (options pr os py)"
  from options_lookup [OF this] obtain fe where
    "fe \<in> set [Integer 0, Integer 1]" "dict_of vs ''female'' = Some fe" by blast
  then show "\<exists>v\<in>{Integer 0, Integer 1}. dict_of vs ''female'' = Some v" by auto
next
  fix v :: pyval assume v: "v \<in> {Integer 0, Integer 1}"
  then have "v \<in> set [Integer 0, Integer 1]" by auto
  from options_point_lookup [OF ne _ this, of "Integer 1900" "Integer 0"]
  show "\<exists>vs\<in>set (options pr os py). dict_of vs ''female'' = Some v"
    by (auto simp: SCORE_RANGE_def)
qed

lemma domain_values_motivation:
  assumes ne: "pr \<noteq> []" "os \<noteq> []" "py \<noteq> []"
  shows "set (domain_values (formula_var ''motivation'') pr os py)
       = Inr ` {Integer (- 1), Integer 0, Integer 1}"
proof (rule domain_values_var [where S = "{Integer (- 1), Integer 0, Integer 1}"])
  show "''motivation'' \<noteq> ''__builtins__''" by simp
next
  fix vs assume "vs \<in> set (options pr os py)"
  from options_lookup [OF this] obtain m where
    "m \<in> set SCORE_RANGE" "dict_of vs ''motivation'' = Some m" by blast
  then show "\<exists>v\<in>{Integer (- 1), Integer 0, Integer 1}. dict_of vs ''motivation'' = Some v"
    by (auto simp: SCORE_RANGE_def)
next
  fix v :: pyval assume v: "v \<in> {Integer (- 1), Integer 0, Integer 1}"
  then have "v \<in> set SCORE_RANGE" by (auto simp: SCORE_RANGE_def)
  from options_point_lookup [OF ne _ _ this, of "Integer 1900" "Integer 0"]
  show "\<exists>vs\<in>set (options pr os py). dict_of vs ''motivation'' = Some v"
    by auto
qed

lemma find_min_max_female:
  assumes "pr \<noteq> []" "os \<noteq> []" "py \<noteq> []"
  shows "find_min_max (formula_var ''female'') pr os py = Inr (Integer 0, Integer 1)"
  by (rule find_min_max_range [OF assms domain_values_female [OF assms]])
    (auto simp: is_number_def val_le_def)

lemma find_min_max_motivation:
  assumes "pr \<noteq> []" "os \<noteq> []" "py \<noteq> []"
  shows "find_min_max (formula_var ''motivation'') pr os py = Inr (Integer (- 1), Integer 1)"
  by (rule find_min_max_range [OF assms domain_values_motivation [OF assms]])
    (auto simp: is_number_def val_le_def)

lemma person_vars_sample:
  "person_vars (sample_person first year inst grp) sample_rating sample_rating sample_rating ms cs =
     (case py_int year of Inl e \<Rightarrow> Inl e
      | Inr b \<Rightarrow> Inr [''programming'' \<mapsto> Float (Fin 0), ''open_source'' \<mapsto> Float (Fin 0),
                 ''python'' \<mapsto> Float (Fin 0), ''born'' \<mapsto> Integer b,
                 ''gender'' \<mapsto> Str ''Female'', ''female'' \<mapsto> Bool True,
                 ''applied'' \<mapsto> Bool False, ''nation'' \<mapsto> Str ''France'',
                 ''country'' \<mapsto> Str ''France'', ''motivation'' \<mapsto> Float (mean ms),
                 ''cv'' \<mapsto> Float (mean cs), ''email'' \<mapsto> Str ''doe@example.org''])"
  by (simp add: person_vars_def sample_person_def sample_rating_def get_rating_def strip_def
      partition_head_def is_space_def split: sum.splits)

lemma py_int_2013: "py_int ''2013'' = Inr 2013"
  by (simp add: py_int_def is_int_space_def parse_unsigned_def is_digit_def)

lemma py_int_1985: "py_int ''1985'' = Inr 1985"
  by (simp add: py_int_def is_int_space_def parse_unsigned_def is_digit_def)

lemma sample_config_born:
  "formula (sample_config\<lparr>formula := Some f\<rparr>) = Some f"
  "programming_rating (sample_config\<lparr>formula := Some f\<rparr>) = sample_rating"
  "open_source_rating (sample_config\<lparr>formula := Some f\<rparr>) = sample_rating"
  "python_rating (sample_config\<lparr>formula := Some f\<rparr>) = sample_rating"
  by (simp_all add: sample_config_def)

text \<open>
  C1. The code does not keep the invariant. With the formula \<open>born\<close> and rating
  tables of one entry each, \<open>find_min_max\<close> returns the bounds 1900 and 2012, the two
  sentinel years of its search domain. For an applicant born in 2013 the snapshot of
  \<open>rank_person\<close> binds \<open>born\<close> to 2013, the score is 2013, a number that is not NaN,
  and the assertion of \<open>rank_person\<close> fails: \<open>rank_person\<close>, and with it the ranking
  of the whole list by \<open>_assign_rankings\<close>, raises \<open>AssertionError\<close>.
\<close>

theorem rank_person_assertion_fails:
  "find_min_max (formula_var ''born'') sample_rating sample_rating sample_rating
     = Inr (Integer 1900, Integer 2012)
   \<and> (case person_vars (sample_person ''Ada'' ''2013'' ''X'' ''1'') sample_rating sample_rating
             sample_rating [] [] of
         Inl e \<Rightarrow> Inl e
       | Inr vars \<Rightarrow> fst (eval_formula (formula_var ''born'') vars))
     = Inr (Integer 2013)
   \<and> math_isnan (Integer 2013) = Inr False
   \<and> rank_person (sample_person ''Ada'' ''2013'' ''X'' ''1'') (formula_var ''born'')
       sample_rating sample_rating sample_rating [] [] (Integer 1900) (Integer 2012)
     = Inl AssertionError
   \<and> assign_rankings (sample_config\<lparr>formula := Some (formula_var ''born'')\<rparr>)
       [sample_person ''Ada'' ''2013'' ''X'' ''1'']
     = Inl AssertionError"
proof -
  have ne: "sample_rating \<noteq> []" by (simp add: sample_rating_def)
  have 1: "find_min_max (formula_var ''born'') sample_rating sample_rating sample_rating
     = Inr (Integer 1900, Integer 2012)"
    by (rule find_min_max_born [OF ne ne ne])
  have 2: "(case person_vars (sample_person ''Ada'' ''2013'' ''X'' ''1'') sample_rating sample_rating
             sample_rating [] [] of
         Inl e \<Rightarrow> Inl e
       | Inr vars \<Rightarrow> fst (eval_formula (formula_var ''born'') vars))
     = Inr (Integer 2013)"
    by (simp add: person_vars_sample py_int_2013 eval_formula_var)
  have 3: "math_isnan (Integer 2013) = Inr False"
    by (simp add: math_isnan_def)
  have 4: "rank_person (sample_person ''Ada'' ''2013'' ''X'' ''1'') (formula_var ''born'')
       sample_rating sample_rating sample_rating ms cs (Integer 1900) (Integer 2012)
     = Inl AssertionError" for ms cs
    by (simp add: rank_person_def person_vars_sample py_int_2013 eval_formula_var
        check_score_def math_isnan_def val_le_def)
  have 5: "assign_rankings (sample_config\<lparr>formula := Some (formula_var ''born'')\<rparr>)
       [sample_person ''Ada'' ''2013'' ''X'' ''1'']
     = Inl AssertionError"
    by (simp add: assign_rankings_def sample_config_born 1 4)
  from 1 2 3 4 5 show ?thesis by (intro conjI)
qed

section \<open>Properties of the formula evaluator and of the bounds\<close>

lemma options_no_email:
  assumes "vs \<in> set (options pr os py)"
  shows "dict_of vs ''email'' = None"
proof -
  from options_shape [OF assms] obtain b g fe n c m cv p osv a pyv where
    sh: "vs = [(''born'', b), (''gender'', g), (''female'', fe), (''nation'', n), (''country'', c),
            (''motivation'', m), (''cv'', cv), (''programming'', p), (''open_source'', osv),
            (''applied'', a), (''python'', pyv)]"
    by (elim exE conjE) (rule that, assumption+)
  show ?thesis unfolding sh dict_of_shape by simp
qed

lemma find_min_max_email:
  assumes "pr \<noteq> []" "os \<noteq> []" "py \<noteq> []"
  shows "find_min_max (formula_var ''email'') pr os py = Inl ValueError"
proof -
  from assms obtain vs rest where o: "options pr os py = vs # rest"
    using options_Nil [of pr os py] by (cases "options pr os py") auto
  then have "vs \<in> set (options pr os py)" by simp
  then have "fst (eval_formula (formula_var ''email'') (dict_of vs)) = Inl ValueError"
    by (simp add: eval_formula_var options_no_email)
  then show ?thesis by (simp add: find_min_max_def o)
qed

text \<open>
  C9, as stated, fails twice. On an empty domain \<open>find_min_max\<close> returns the pair
  (NaN, NaN), not (+inf, -inf). On a non-empty domain a formula that fails at a domain
  point, such as \<open>email\<close>, which the domain does not bind, makes \<open>find_min_max\<close> raise
  \<open>ValueError\<close> instead of returning bounds.
\<close>

theorem find_min_max_degenerate:
  "find_min_max (formula_var ''born'') [] sample_rating sample_rating = Inr (Float NaN, Float NaN)
   \<and> find_min_max (formula_var ''born'') [] sample_rating sample_rating \<noteq> Inr (Float PInf, Float NInf)
   \<and> find_min_max (formula_var ''email'') sample_rating sample_rating sample_rating
       = Inl ValueError"
  using find_min_max_email [of sample_rating sample_rating sample_rating]
  by (simp add: find_min_max_empty sample_rating_def)

text \<open>
  C9, amended. If a rating table is empty (the only way for the outer product to be
  empty), \<open>find_min_max\<close> returns (NaN, NaN). If no table is empty and the formula
  evaluates to a number other than NaN at every point of the domain, \<open>find_min_max\<close>
  returns a pair whose components are values of the formula on the domain and which
  bound every value of the formula on the domain: the exact minimum and maximum.
\<close>

theorem find_min_max_bounds:
  "(pr = [] \<or> os = [] \<or> py = [] \<longrightarrow> find_min_max f pr os py = Inr (Float NaN, Float NaN)) \<and>
   (pr \<noteq> [] \<and> os \<noteq> [] \<and> py \<noteq> [] \<and>
    (\<forall>r \<in> set (domain_values f pr os py). \<exists>x. r = Inr x \<and> is_number x) \<longrightarrow>
    (\<exists>mn mx. find_min_max f pr os py = Inr (mn, mx)
       \<and> Inr mn \<in> set (domain_values f pr os py) \<and> Inr mx \<in> set (domain_values f pr os py)
       \<and> (\<forall>x. Inr x \<in> set (domain_values f pr os py) \<longrightarrow>
             val_le mn x = Inr True \<and> val_le x mx = Inr True)))"
proof (intro conjI impI)
  assume "pr = [] \<or> os = [] \<or> py = []"
  then show "find_min_max f pr os py = Inr (Float NaN, Float NaN)" by (rule find_min_max_empty)
next
  assume a: "pr \<noteq> [] \<and> os \<noteq> [] \<and> py \<noteq> [] \<and>
    (\<forall>r \<in> set (domain_values f pr os py). \<exists>x. r = Inr x \<and> is_number x)"
  then have "pr \<noteq> []" "os \<noteq> []" "py \<noteq> []"
    "\<forall>r \<in> set (domain_values f pr os py). \<exists>x. r = Inr x \<and> is_number x" by blast+
  then show "\<exists>mn mx. find_min_max f pr os py = Inr (mn, mx)
       \<and> Inr mn \<in> set (domain_values f pr os py) \<and> Inr mx \<in> set (domain_values f pr os py)
       \<and> (\<forall>x. Inr x \<in> set (domain_values f pr os py) \<longrightarrow>
             val_le mn x = Inr True \<and> val_le x mx = Inr True)"
    by (rule find_min_max_exact)
qed

text \<open>The amended C9 with an empty open-source table, and with the formula \<open>female\<close> on
  non-empty tables.\<close>

theorem find_min_max_bounds_witness:
  "find_min_max (formula_var ''female'') sample_rating [] sample_rating = Inr (Float NaN, Float NaN)
   \<and> (\<exists>mn mx. find_min_max (formula_var ''female'') sample_rating sample_rating sample_rating
         = Inr (mn, mx) \<and> val_le mn (Integer 0) = Inr True \<and> val_le (Integer 1) mx = Inr True)"
proof -
  have ne: "sample_rating \<noteq> []" by (simp add: sample_rating_def)
  have d: "set (domain_values (formula_var ''female'') sample_rating sample_rating sample_rating)
      = Inr ` {Integer 0, Integer 1}"
    by (rule domain_values_female [OF ne ne ne])
  have 1: "find_min_max (formula_var ''female'') sample_rating [] sample_rating
      = Inr (Float NaN, Float NaN)"
    using find_min_max_bounds [of sample_rating "[]" sample_rating "formula_var ''female''"]
    by simp
  have "\<exists>mn mx. find_min_max (formula_var ''female'') sample_rating sample_rating sample_rating
         = Inr (mn, mx)
       \<and> Inr mn \<in> Inr ` {Integer 0, Integer 1}
       \<and> Inr mx \<in> (Inr ` {Integer 0, Integer 1} :: (pyexn + pyval) set)
       \<and> (\<forall>x. Inr x \<in> (Inr ` {Integer 0, Integer 1} :: (pyexn + pyval) set) \<longrightarrow>
             val_le mn x = Inr True \<and> val_le x mx = Inr True)"
    using find_min_max_bounds [of sample_rating sample_rating sample_rating "formula_var ''female''"]
      ne unfolding d by (auto simp: is_number_def)
  then have 2: "\<exists>mn mx. find_min_max (formula_var ''female'') sample_rating sample_rating sample_rating
         = Inr (mn, mx) \<and> val_le mn (Integer 0) = Inr True \<and> val_le (Integer 1) mx = Inr True"
    by (elim exE conjE) (intro exI conjI, assumption, auto)
  from 1 2 show ?thesis by (rule conjI)
qed

text \<open>
  C5, as stated, fails, in two ways. A successful evaluation of the formula \<open>born\<close>
  on a one-entry mapping leaves the caller's mapping with a second entry,
  \<open>__builtins__\<close>. And the formula runs on the caller's mapping itself: the formula
  \<open>globals().update(born=0) or born\<close> rebinds \<open>born\<close> there, so after the call the
  mapping gives 0 for \<open>born\<close> where the caller had put 1985.
\<close>

theorem eval_formula_changes_mapping:
  "fst (eval_formula (formula_var ''born'') [''born'' \<mapsto> Integer 1985]) = Inr (Integer 1985)
   \<and> snd (eval_formula (formula_var ''born'') [''born'' \<mapsto> Integer 1985])
       = [''born'' \<mapsto> Integer 1985, ''__builtins__'' \<mapsto> Builtins]
   \<and> snd (eval_formula (formula_var ''born'') [''born'' \<mapsto> Integer 1985])
       \<noteq> [''born'' \<mapsto> Integer 1985]
   \<and> fst (eval_formula formula_update_born [''born'' \<mapsto> Integer 1985]) = Inr (Integer 0)
   \<and> snd (eval_formula formula_update_born [''born'' \<mapsto> Integer 1985]) ''born''
       = Some (Integer 0)"
proof -
  have 1: "fst (eval_formula (formula_var ''born'') [''born'' \<mapsto> Integer 1985])
      = Inr (Integer 1985)"
    by (simp add: eval_formula_var)
  have 2: "snd (eval_formula (formula_var ''born'') [''born'' \<mapsto> Integer 1985])
       = [''born'' \<mapsto> Integer 1985, ''__builtins__'' \<mapsto> Builtins]"
    by (simp add: eval_formula_def py_eval_def formula_var_def)
  have "[''born'' \<mapsto> Integer 1985, ''__builtins__'' \<mapsto> Builtins] ''__builtins__''
      \<noteq> [''born'' \<mapsto> Integer 1985] ''__builtins__''"
    by simp
  then have "[''born'' \<mapsto> Integer 1985, ''__builtins__'' \<mapsto> Builtins]
      \<noteq> [''born'' \<mapsto> Integer 1985]"
    by metis
  then have 3: "snd (eval_formula (formula_var ''born'') [''born'' \<mapsto> Integer 1985])
       \<noteq> [''born'' \<mapsto> Integer 1985]"
    unfolding 2 .
  have 4: "fst (eval_formula formula_update_born [''born'' \<mapsto> Integer 1985]) = Inr (Integer 0)"
    by (simp add: eval_formula_def py_eval_def formula_update_born_def)
  have 5: "snd (eval_formula formula_update_born [''born'' \<mapsto> Integer 1985]) ''born''
       = Some (Integer 0)"
    by (simp add: eval_formula_def py_eval_def formula_update_born_def)
  from 1 2 3 4 5 show ?thesis by (intro conjI)
qed

text \<open>
  C5, amended. \<open>eval_formula\<close> hands the caller's mapping to the formula as its
  globals, so what the formula writes there stays written. At every key \<open>k\<close> that the
  formula does not write, whether evaluation succeeds or fails: if \<open>k\<close> is not
  \<open>__builtins__\<close>, the mapping is unchanged; the key \<open>__builtins__\<close> is absent after
  a \<open>NameError\<close> or \<open>TypeError\<close> of the formula, and is bound otherwise, to the
  caller's value if the caller had bound it and to the builtins module if not.
\<close>

theorem eval_formula_frame:
  assumes "\<forall>g. snd (f g) k = g k"
  shows "snd (eval_formula f vars) k =
           (if k = ''__builtins__'' then
              (if fst (py_eval f vars) = Inl NameError \<or> fst (py_eval f vars) = Inl TypeError
               then None
               else Some (case vars ''__builtins__'' of None \<Rightarrow> Builtins | Some v \<Rightarrow> v))
            else vars k)"
proof -
  let ?g = "case vars ''__builtins__'' of
              None \<Rightarrow> vars(''__builtins__'' \<mapsto> Builtins) | Some _ \<Rightarrow> vars"
  obtain r g' where f: "f ?g = (r, g')" by (cases "f ?g")
  have "snd (f ?g) k = ?g k" using assms by blast
  then have g': "g' k = ?g k" by (simp add: f)
  show ?thesis
  proof (cases r)
    case (Inl e)
    then show ?thesis
      using g' by (auto simp: eval_formula_def py_eval_def f split: option.splits)
  next
    case (Inr v)
    then show ?thesis
      using g' by (auto simp: eval_formula_def py_eval_def f split: option.splits)
  qed
qed

text \<open>The amended C5 on three evaluations: the formula that rebinds \<open>born\<close> leaves
  \<open>gender\<close> as it was; after the successful evaluation of \<open>born\<close> the key
  \<open>__builtins__\<close> is bound to the builtins module; after the failing evaluation of
  \<open>email\<close> it is absent.\<close>

theorem eval_formula_frame_witness:
  "snd (eval_formula formula_update_born [''born'' \<mapsto> Integer 1985, ''gender'' \<mapsto> Str ''F''])
       ''gender'' = Some (Str ''F'')
   \<and> snd (eval_formula (formula_var ''born'') [''born'' \<mapsto> Integer 1985]) ''__builtins__''
       = Some Builtins
   \<and> snd (eval_formula (formula_var ''email'') [''born'' \<mapsto> Integer 1985]) ''__builtins__''
       = None"
proof -
  have 1: "snd (eval_formula formula_update_born
        [''born'' \<mapsto> Integer 1985, ''gender'' \<mapsto> Str ''F'']) ''gender'' = Some (Str ''F'')"
    using eval_formula_frame [of formula_update_born "''gender''"
        "[''born'' \<mapsto> Integer 1985, ''gender'' \<mapsto> Str ''F'']"]
    by (simp add: formula_update_born_def)
  have 2: "snd (eval_formula (formula_var ''born'') [''born'' \<mapsto> Integer 1985]) ''__builtins__''
       = Some Builtins"
    using eval_formula_frame [of "formula_var ''born''" "''__builtins__''"
        "[''born'' \<mapsto> Integer 1985]"]
    by (simp add: formula_var_def py_eval_def split: option.splits)
  have 3: "snd (eval_formula (formula_var ''email'') [''born'' \<mapsto> Integer 1985]) ''__builtins__''
       = None"
    using eval_formula_frame [of "formula_var ''email''" "''__builtins__''"
        "[''born'' \<mapsto> Integer 1985]"]
    by (simp add: formula_var_def py_eval_def split: option.splits)
  from 1 2 3 show ?thesis by (intro conjI)
qed

section \<open>Properties of the cohort ranker\<close>

lemma rank_walk_length [simp]: "length (rank_walk eq labs rnk xs) = length xs"
  by (induction xs arbitrary: labs rnk) (auto simp: Let_def split: option.splits)

lemma lab_key_update [simp]: "lab_key eq (p\<lparr>score := s, rank := r\<rparr>) = lab_key eq p"
  by (simp add: lab_key_def)

lemma rank_walk_lab_key:
  "i < length xs \<Longrightarrow> lab_key eq (rank_walk eq labs rnk xs ! i) = lab_key eq (snd (xs ! i))"
proof (induction xs arbitrary: labs rnk i)
  case Nil
  then show ?case by simp
next
  case (Cons x xs)
  obtain s p where x: "x = (s, p)" by (cases x)
  show ?case using Cons by (cases i) (auto simp: x Let_def split: option.splits)
qed

text \<open>The final dictionary of the ranking loop.\<close>

lemma rank_walk_labs:
  assumes "inj_on labs (dom labs)" and "\<forall>l r. labs l = Some r \<longrightarrow> r < rnk"
  shows "\<exists>labs'. (\<forall>i<length xs. rank (rank_walk eq labs rnk xs ! i) = labs' (lab_key eq (snd (xs ! i))))
           \<and> (\<forall>l \<in> dom labs. labs' l = labs l)
           \<and> inj_on labs' (dom labs')
           \<and> (\<forall>i<length xs. lab_key eq (snd (xs ! i)) \<in> dom labs')
           \<and> (\<forall>l r. labs' l = Some r \<longrightarrow> l \<notin> dom labs \<longrightarrow> rnk \<le> r)"
  using assms
proof (induction xs arbitrary: labs rnk)
  case Nil
  then show ?case by (intro exI [of _ labs]) auto
next
  case (Cons x xs)
  obtain s p where x: "x = (s, p)" by (cases x)
  let ?lab = "lab_key eq p"
  show ?case
  proof (cases "labs ?lab")
    case None
    let ?labs1 = "labs(?lab \<mapsto> rnk)"
    have out: "rank_walk eq labs rnk (x # xs)
        = p\<lparr>score := Some s, rank := Some rnk\<rparr> # rank_walk eq ?labs1 (rnk + 1) xs"
      by (simp add: x None)
    have nr: "labs l \<noteq> Some rnk" for l
      using Cons.prems(2) by (metis less_irrefl)
    have inj1: "inj_on ?labs1 (dom ?labs1)"
      using Cons.prems(1) None nr by (auto simp: inj_on_def dom_def split: if_splits)
    have bd1: "\<forall>l r. ?labs1 l = Some r \<longrightarrow> r < rnk + 1"
      using Cons.prems by (auto simp: less_Suc_eq split: if_splits)
    from Cons.IH [OF inj1 bd1] obtain labs' where
      r: "\<forall>i<length xs. rank (rank_walk eq ?labs1 (rnk + 1) xs ! i) = labs' (lab_key eq (snd (xs ! i)))"
      and ext: "\<forall>l \<in> dom ?labs1. labs' l = ?labs1 l"
      and inj: "inj_on labs' (dom labs')"
      and dm: "\<forall>i<length xs. lab_key eq (snd (xs ! i)) \<in> dom labs'"
      and fr: "\<forall>l r. labs' l = Some r \<longrightarrow> l \<notin> dom ?labs1 \<longrightarrow> rnk + 1 \<le> r"
      by blast
    have hd: "labs' ?lab = Some rnk" using ext by simp
    have 1: "\<forall>i<length (x # xs). rank (rank_walk eq labs rnk (x # xs) ! i)
               = labs' (lab_key eq (snd ((x # xs) ! i)))"
      unfolding out using r hd by (auto simp: x nth_Cons split: nat.splits)
    have 2: "\<forall>l \<in> dom labs. labs' l = labs l"
      using ext None by (auto simp: dom_def)
    have 4: "\<forall>i<length (x # xs). lab_key eq (snd ((x # xs) ! i)) \<in> dom labs'"
      using dm hd by (auto simp: x nth_Cons split: nat.splits)
    have 5: "\<forall>l r. labs' l = Some r \<longrightarrow> l \<notin> dom labs \<longrightarrow> rnk \<le> r"
    proof (intro allI impI)
      fix l r assume lr: "labs' l = Some r" and "l \<notin> dom labs"
      show "rnk \<le> r"
      proof (cases "l = ?lab")
        case True
        with lr hd show ?thesis by simp
      next
        case False
        with \<open>l \<notin> dom labs\<close> have "l \<notin> dom ?labs1" by simp
        with fr lr have "rnk + 1 \<le> r" by blast
        then show ?thesis by simp
      qed
    qed
    from 1 2 inj 4 5 show ?thesis by blast
  next
    case (Some r0)
    have out: "rank_walk eq labs rnk (x # xs)
        = p\<lparr>score := Some s, rank := Some r0\<rparr> # rank_walk eq labs rnk xs"
      by (simp add: x Some)
    from Cons.IH [OF Cons.prems] obtain labs' where
      r: "\<forall>i<length xs. rank (rank_walk eq labs rnk xs ! i) = labs' (lab_key eq (snd (xs ! i)))"
      and ext: "\<forall>l \<in> dom labs. labs' l = labs l"
      and inj: "inj_on labs' (dom labs')"
      and dm: "\<forall>i<length xs. lab_key eq (snd (xs ! i)) \<in> dom labs'"
      and fr: "\<forall>l r. labs' l = Some r \<longrightarrow> l \<notin> dom labs \<longrightarrow> rnk \<le> r"
      by blast
    have hd: "labs' ?lab = Some r0" using ext Some by (auto simp: dom_def)
    have 1: "\<forall>i<length (x # xs). rank (rank_walk eq labs rnk (x # xs) ! i)
               = labs' (lab_key eq (snd ((x # xs) ! i)))"
      unfolding out using r hd by (auto simp: x nth_Cons split: nat.splits)
    have 4: "\<forall>i<length (x # xs). lab_key eq (snd ((x # xs) ! i)) \<in> dom labs'"
      using dm hd by (auto simp: x nth_Cons split: nat.splits)
    from 1 ext inj 4 fr show ?thesis by blast
  qed
qed

lemma rank_walk_same_rank_iff:
  assumes "i < length xs" "j < length xs"
  shows "(rank (rank_walk eq Map.empty 0 xs ! i) = rank (rank_walk eq Map.empty 0 xs ! j))
       = (lab_key eq (snd (xs ! i)) = lab_key eq (snd (xs ! j)))"
proof -
  from rank_walk_labs [of Map.empty 0 xs eq] obtain labs' where
    r: "\<forall>i<length xs. rank (rank_walk eq Map.empty 0 xs ! i) = labs' (lab_key eq (snd (xs ! i)))"
    and inj: "inj_on labs' (dom labs')"
    and dm: "\<forall>i<length xs. lab_key eq (snd (xs ! i)) \<in> dom labs'"
    by auto
  from assms r have "(rank (rank_walk eq Map.empty 0 xs ! i) = rank (rank_walk eq Map.empty 0 xs ! j))
     = (labs' (lab_key eq (snd (xs ! i))) = labs' (lab_key eq (snd (xs ! j))))" by simp
  also have "\<dots> = (lab_key eq (snd (xs ! i)) = lab_key eq (snd (xs ! j)))"
    using inj dm assms by (auto simp: inj_on_def)
  finally show ?thesis .
qed

lemma rank_walk_mono:
  assumes "inj_on labs (dom labs)" and "\<forall>l r. labs l = Some r \<longrightarrow> r < rnk"
    and "i \<le> j" "j < length xs"
    and "lab_key eq (snd (xs ! j)) \<notin> dom labs"
    and "lab_key eq (snd (xs ! j)) \<notin> (\<lambda>x. lab_key eq (snd x)) ` set (take i xs)"
  shows "\<exists>ri rj. rank (rank_walk eq labs rnk xs ! i) = Some ri
           \<and> rank (rank_walk eq labs rnk xs ! j) = Some rj \<and> ri \<le> rj"
  using assms
proof (induction xs arbitrary: labs rnk i j)
  case Nil
  then show ?case by simp
next
  case (Cons x xs)
  obtain s p where x: "x = (s, p)" by (cases x)
  let ?lab = "lab_key eq p"
  define labs1 where "labs1 = (case labs ?lab of None \<Rightarrow> labs(?lab \<mapsto> rnk) | Some r \<Rightarrow> labs)"
  define rnk1 where "rnk1 = (case labs ?lab of None \<Rightarrow> rnk + 1 | Some r \<Rightarrow> rnk)"
  define r0 where "r0 = (case labs ?lab of None \<Rightarrow> rnk | Some r \<Rightarrow> r)"
  have out: "rank_walk eq labs rnk (x # xs)
      = p\<lparr>score := Some s, rank := Some r0\<rparr> # rank_walk eq labs1 rnk1 xs"
    by (simp add: x labs1_def rnk1_def r0_def split: option.splits)
  have nr: "labs l \<noteq> Some rnk" for l
    using Cons.prems(2) by (metis less_irrefl)
  have inj1: "inj_on labs1 (dom labs1)"
    using Cons.prems(1) nr by (auto simp: labs1_def inj_on_def dom_def split: option.splits if_splits)
  have bd1: "\<forall>l r. labs1 l = Some r \<longrightarrow> r < rnk1"
    using Cons.prems(2) by (auto simp: labs1_def rnk1_def less_Suc_eq split: option.splits if_splits)
  have hd: "labs1 ?lab = Some r0"
    by (auto simp: labs1_def r0_def split: option.splits)
  have r0: "r0 < rnk1"
    using bd1 hd by blast
  have dom1: "dom labs1 = insert ?lab (dom labs)"
    by (auto simp: labs1_def split: option.splits)
  show ?case
  proof (cases j)
    case 0
    with Cons.prems show ?thesis by (simp add: out)
  next
    case (Suc j')
    then have j': "j' < length xs" using Cons.prems by simp
    let ?kj = "lab_key eq (snd (xs ! j'))"
    have kj: "?kj \<notin> dom labs" using Cons.prems(5) Suc by simp
    show ?thesis
    proof (cases i)
      case 0
      from rank_walk_labs [OF inj1 bd1, of xs eq] obtain labs' where
        r: "\<forall>i<length xs. rank (rank_walk eq labs1 rnk1 xs ! i) = labs' (lab_key eq (snd (xs ! i)))"
        and ext: "\<forall>l \<in> dom labs1. labs' l = labs1 l"
        and dm: "\<forall>i<length xs. lab_key eq (snd (xs ! i)) \<in> dom labs'"
        and fr: "\<forall>l r. labs' l = Some r \<longrightarrow> l \<notin> dom labs1 \<longrightarrow> rnk1 \<le> r"
        by blast
      from dm j' obtain rj where rj: "labs' ?kj = Some rj" by blast
      have "r0 \<le> rj"
      proof (cases "?kj = ?lab")
        case True
        then have "labs' ?kj = Some r0" using ext hd dom1 by simp
        with rj show ?thesis by simp
      next
        case False
        with kj have "?kj \<notin> dom labs1" by (simp add: dom1)
        with fr rj have "rnk1 \<le> rj" by blast
        with r0 show ?thesis by simp
      qed
      then show ?thesis using r j' rj by (simp add: out 0 Suc)
    next
      case i: (Suc i')
      have a: "i' \<le> j'" using Cons.prems(3) i Suc by simp
      have ne: "?kj \<noteq> ?lab" and b: "?kj \<notin> (\<lambda>x. lab_key eq (snd x)) ` set (take i' xs)"
        using Cons.prems(6) by (auto simp: i Suc x)
      have c: "?kj \<notin> dom labs1" using kj ne by (simp add: dom1)
      from Cons.IH [OF inj1 bd1 a j' c b] show ?thesis by (simp add: out i Suc)
    qed
  qed
qed

lemma assign_rankings_out:
  assumes "assign_rankings cfg applications = Inr out"
  shows "\<exists>ranked. out = rank_walk (equivs cfg) Map.empty 0 ranked \<and> length ranked = length out"
  using assms by (auto simp: assign_rankings_def split: option.splits sum.splits prod.splits)

lemma rank_walk_lab_keys:
  "map (lab_key eq) (rank_walk eq labs rnk xs) = map (\<lambda>x. lab_key eq (snd x)) xs"
  by (rule nth_equalityI) (simp_all add: rank_walk_lab_key)

lemma mean_single: "mean [Some x, None] = Fin x"
  by (simp add: mean_def)

lemma rank_person_sample:
  assumes "py_le (Fin (- 1)) (mean ms)" "py_le (mean ms) (Fin 1)"
  shows "rank_person (sample_person first ''1985'' inst grp) (formula_var ''motivation'')
     sample_rating sample_rating sample_rating ms cs (Integer (- 1)) (Integer 1)
       = Inr (Float (mean ms))"
  using assms
  by (simp add: rank_person_def person_vars_sample py_int_1985 eval_formula_var
      check_score_def math_isnan_def val_le_def split: bool.splits)

lemma assign_rankings_sample:
  "assign_rankings sample_config
     [sample_person ''C'' ''1985'' i3 g3, sample_person ''A'' ''1985'' i1 g1,
      sample_person ''B'' ''1985'' i2 g2]
   = Inr (rank_walk [] Map.empty 0
       [(Float (Fin (9 / 10)), sample_person ''A'' ''1985'' i1 g1),
        (Float (Fin (85 / 100)), sample_person ''B'' ''1985'' i2 g2),
        (Float (Fin (7 / 10)), sample_person ''C'' ''1985'' i3 g3)])"
proof -
  have ne: "sample_rating \<noteq> []" by (simp add: sample_rating_def)
  have fn: "fullname (sample_person first y i g) = first @ '' Doe''" for first y i g
    by (simp add: fullname_def sample_person_def)
  have sc: "score_all sample_config (formula_var ''motivation'') (Integer (- 1)) (Integer 1)
     [sample_person ''C'' ''1985'' i3 g3, sample_person ''A'' ''1985'' i1 g1,
      sample_person ''B'' ''1985'' i2 g2] = Inr [Float (Fin (7 / 10)), Float (Fin (9 / 10)), Float (Fin (85 / 100))]"
    by (simp add: sample_config_def gradings_def fn mean_single rank_person_sample)
  have f: "formula sample_config = Some (formula_var ''motivation'')"
    and t: "programming_rating sample_config = sample_rating"
      "open_source_rating sample_config = sample_rating"
      "python_rating sample_config = sample_rating"
    and e: "equivs sample_config = []"
    by (simp_all add: sample_config_def)
  have srt: "sorted_reverse (zip [Float (Fin (7 / 10)), Float (Fin (9 / 10)), Float (Fin (85 / 100))]
     [sample_person ''C'' ''1985'' i3 g3, sample_person ''A'' ''1985'' i1 g1,
      sample_person ''B'' ''1985'' i2 g2])
    = [(Float (Fin (9 / 10)), sample_person ''A'' ''1985'' i1 g1),
        (Float (Fin (85 / 100)), sample_person ''B'' ''1985'' i2 g2),
        (Float (Fin (7 / 10)), sample_person ''C'' ''1985'' i3 g3)]"
    by (simp add: sorted_reverse_def val_lt_def)
  show ?thesis
    by (simp only: assign_rankings_def f t e find_min_max_motivation [OF ne ne ne] sc srt
        option.case sum.case prod.case)
qed

lemma lab_key_sample:
  "lab_key [] (sample_person first y ''X'' ''1'') = ''X / 1''"
  "lab_key [] (sample_person first y ''Y'' ''1'') = ''Y / 1''"
  by (simp_all add: lab_key_def sample_person_def strip_def is_space_def)

lemma rank_walk_XXY:
  "rank_walk [] Map.empty 0
       [(Float (Fin (9 / 10)), sample_person ''A'' ''1985'' ''X'' ''1''),
        (Float (Fin (85 / 100)), sample_person ''B'' ''1985'' ''X'' ''1''),
        (Float (Fin (7 / 10)), sample_person ''C'' ''1985'' ''Y'' ''1'')]
   = [(sample_person ''A'' ''1985'' ''X'' ''1'')\<lparr>score := Some (Float (Fin (9 / 10))), rank := Some 0\<rparr>,
      (sample_person ''B'' ''1985'' ''X'' ''1'')\<lparr>score := Some (Float (Fin (85 / 100))), rank := Some 0\<rparr>,
      (sample_person ''C'' ''1985'' ''Y'' ''1'')\<lparr>score := Some (Float (Fin (7 / 10))), rank := Some 1\<rparr>]"
  by (simp add: lab_key_sample)

lemma rank_walk_XYX:
  "rank_walk [] Map.empty 0
       [(Float (Fin (9 / 10)), sample_person ''A'' ''1985'' ''X'' ''1''),
        (Float (Fin (85 / 100)), sample_person ''B'' ''1985'' ''Y'' ''1''),
        (Float (Fin (7 / 10)), sample_person ''C'' ''1985'' ''X'' ''1'')]
   = [(sample_person ''A'' ''1985'' ''X'' ''1'')\<lparr>score := Some (Float (Fin (9 / 10))), rank := Some 0\<rparr>,
      (sample_person ''B'' ''1985'' ''Y'' ''1'')\<lparr>score := Some (Float (Fin (85 / 100))), rank := Some 1\<rparr>,
      (sample_person ''C'' ''1985'' ''X'' ''1'')\<lparr>score := Some (Float (Fin (7 / 10))), rank := Some 0\<rparr>]"
  by (simp add: lab_key_sample)

text \<open>
  C3, as stated, fails. The applicants A (0.9, lab X / 1), B (0.85, lab Y / 1) and
  C (0.7, lab X / 1) are walked in this order and receive the ranks 0, 1 and 0: C
  falls back to the rank of its lab's first applicant.
\<close>

theorem rank_sequence_decreases:
  "assign_rankings sample_config
     [sample_person ''C'' ''1985'' ''X'' ''1'', sample_person ''A'' ''1985'' ''X'' ''1'',
      sample_person ''B'' ''1985'' ''Y'' ''1'']
   = Inr [(sample_person ''A'' ''1985'' ''X'' ''1'')\<lparr>score := Some (Float (Fin (9 / 10))), rank := Some 0\<rparr>,
      (sample_person ''B'' ''1985'' ''Y'' ''1'')\<lparr>score := Some (Float (Fin (85 / 100))), rank := Some 1\<rparr>,
      (sample_person ''C'' ''1985'' ''X'' ''1'')\<lparr>score := Some (Float (Fin (7 / 10))), rank := Some 0\<rparr>]"
  by (simp only: assign_rankings_sample rank_walk_XYX)

text \<open>
  C3, amended. Walking the applicants in the order of the ranking loop (descending
  score), the rank of an applicant is at most the rank of every later applicant whose
  lab key does not occur among the applicants before the earlier one. So the sequence
  of ranks is non-decreasing wherever no applicant returns to a lab seen earlier.
\<close>

theorem rank_nondecreasing_to_fresh_lab:
  assumes ar: "assign_rankings cfg applications = Inr out"
    and ij: "i \<le> j" "j < length out"
    and fresh: "lab_key (equivs cfg) (out ! j) \<notin> lab_key (equivs cfg) ` set (take i out)"
  shows "\<exists>ri rj. rank (out ! i) = Some ri \<and> rank (out ! j) = Some rj \<and> ri \<le> rj"
proof -
  from assign_rankings_out [OF ar] obtain ranked where
    out: "out = rank_walk (equivs cfg) Map.empty 0 ranked" and len: "length ranked = length out"
    by blast
  have keys: "map (lab_key (equivs cfg)) out = map (\<lambda>x. lab_key (equivs cfg) (snd x)) ranked"
    unfolding out by (rule rank_walk_lab_keys)
  have j: "j < length ranked" using ij len by simp
  have kj: "lab_key (equivs cfg) (out ! j) = lab_key (equivs cfg) (snd (ranked ! j))"
    unfolding out using j by (rule rank_walk_lab_key)
  have "lab_key (equivs cfg) ` set (take i out) = set (take i (map (lab_key (equivs cfg)) out))"
    by (simp add: take_map)
  also have "\<dots> = (\<lambda>x. lab_key (equivs cfg) (snd x)) ` set (take i ranked)"
    unfolding keys by (simp add: take_map)
  finally have fr: "lab_key (equivs cfg) (snd (ranked ! j))
      \<notin> (\<lambda>x. lab_key (equivs cfg) (snd x)) ` set (take i ranked)"
    using fresh kj by simp
  show ?thesis unfolding out
    by (rule rank_walk_mono [OF _ _ ij(1) j _ fr]) simp_all
qed

text \<open>The amended C3 on the three applicants above, from A to B.\<close>

theorem rank_nondecreasing_to_fresh_lab_witness:
  "\<exists>ri rj.
     rank ([(sample_person ''A'' ''1985'' ''X'' ''1'')\<lparr>score := Some (Float (Fin (9 / 10))), rank := Some 0\<rparr>,
      (sample_person ''B'' ''1985'' ''Y'' ''1'')\<lparr>score := Some (Float (Fin (85 / 100))), rank := Some 1\<rparr>,
      (sample_person ''C'' ''1985'' ''X'' ''1'')\<lparr>score := Some (Float (Fin (7 / 10))), rank := Some 0\<rparr>] ! 0)
       = Some ri
   \<and> rank ([(sample_person ''A'' ''1985'' ''X'' ''1'')\<lparr>score := Some (Float (Fin (9 / 10))), rank := Some 0\<rparr>,
      (sample_person ''B'' ''1985'' ''Y'' ''1'')\<lparr>score := Some (Float (Fin (85 / 100))), rank := Some 1\<rparr>,
      (sample_person ''C'' ''1985'' ''X'' ''1'')\<lparr>score := Some (Float (Fin (7 / 10))), rank := Some 0\<rparr>] ! 1)
       = Some rj
   \<and> ri \<le> rj"
proof (rule rank_nondecreasing_to_fresh_lab [where cfg = sample_config])
  show "assign_rankings sample_config
     [sample_person ''C'' ''1985'' ''X'' ''1'', sample_person ''A'' ''1985'' ''X'' ''1'',
      sample_person ''B'' ''1985'' ''Y'' ''1'']
   = Inr [(sample_person ''A'' ''1985'' ''X'' ''1'')\<lparr>score := Some (Float (Fin (9 / 10))), rank := Some 0\<rparr>,
      (sample_person ''B'' ''1985'' ''Y'' ''1'')\<lparr>score := Some (Float (Fin (85 / 100))), rank := Some 1\<rparr>,
      (sample_person ''C'' ''1985'' ''X'' ''1'')\<lparr>score := Some (Float (Fin (7 / 10))), rank := Some 0\<rparr>]"
    by (simp only: assign_rankings_sample rank_walk_XYX)
qed (simp_all add: sample_config_def lab_key_sample)

text \<open>
  C4. After rank assignment two applicants have the same rank if and only if their
  lab keys (canonical institute, \<open>" / "\<close>, canonical group) are equal. In particular
  the applicants A (0.9, lab X / 1), B (0.85, lab X / 1) and C (0.7, lab Y / 1), handed
  over in the order C, A, B, come out in the order A, B, C with the ranks 0, 0 and 1.
\<close>

theorem same_rank_iff_same_lab:
  "(assign_rankings cfg applications = Inr out \<longrightarrow>
      (\<forall>i<length out. \<forall>j<length out.
         (rank (out ! i) = rank (out ! j))
         = (lab_key (equivs cfg) (out ! i) = lab_key (equivs cfg) (out ! j))))
   \<and> assign_rankings sample_config
       [sample_person ''C'' ''1985'' ''Y'' ''1'', sample_person ''A'' ''1985'' ''X'' ''1'',
        sample_person ''B'' ''1985'' ''X'' ''1'']
     = Inr [(sample_person ''A'' ''1985'' ''X'' ''1'')\<lparr>score := Some (Float (Fin (9 / 10))), rank := Some 0\<rparr>,
        (sample_person ''B'' ''1985'' ''X'' ''1'')\<lparr>score := Some (Float (Fin (85 / 100))), rank := Some 0\<rparr>,
        (sample_person ''C'' ''1985'' ''Y'' ''1'')\<lparr>score := Some (Float (Fin (7 / 10))), rank := Some 1\<rparr>]"
proof (intro conjI impI allI)
  fix i j
  assume ar: "assign_rankings cfg applications = Inr out"
    and i: "i < length out" and j: "j < length out"
  from assign_rankings_out [OF ar] obtain ranked where
    out: "out = rank_walk (equivs cfg) Map.empty 0 ranked" and len: "length ranked = length out"
    by blast
  have i': "i < length ranked" and j': "j < length ranked" using i j len by simp_all
  show "(rank (out ! i) = rank (out ! j))
         = (lab_key (equivs cfg) (out ! i) = lab_key (equivs cfg) (out ! j))"
    unfolding out rank_walk_lab_key [OF i'] rank_walk_lab_key [OF j']
    by (rule rank_walk_same_rank_iff [OF i' j'])
next
  show "assign_rankings sample_config
       [sample_person ''C'' ''1985'' ''Y'' ''1'', sample_person ''A'' ''1985'' ''X'' ''1'',
        sample_person ''B'' ''1985'' ''X'' ''1'']
     = Inr [(sample_person ''A'' ''1985'' ''X'' ''1'')\<lparr>score := Some (Float (Fin (9 / 10))), rank := Some 0\<rparr>,
        (sample_person ''B'' ''1985'' ''X'' ''1'')\<lparr>score := Some (Float (Fin (85 / 100))), rank := Some 0\<rparr>,
        (sample_person ''C'' ''1985'' ''Y'' ''1'')\<lparr>score := Some (Float (Fin (7 / 10))), rank := Some 1\<rparr>]"
    by (simp only: assign_rankings_sample rank_walk_XXY)
qed

text \<open>C4 on the three applicants of its example: A and B share a rank, B and C do
  not.\<close>

theorem same_rank_iff_same_lab_witness:
  "rank ((sample_person ''A'' ''1985'' ''X'' ''1'')\<lparr>score := Some (Float (Fin (9 / 10))), rank := Some 0\<rparr>)
     = rank ((sample_person ''B'' ''1985'' ''X'' ''1'')\<lparr>score := Some (Float (Fin (85 / 100))), rank := Some 0\<rparr>)
   \<and> rank ((sample_person ''B'' ''1985'' ''X'' ''1'')\<lparr>score := Some (Float (Fin (85 / 100))), rank := Some 0\<rparr>)
     \<noteq> rank ((sample_person ''C'' ''1985'' ''Y'' ''1'')\<lparr>score := Some (Float (Fin (7 / 10))), rank := Some 1\<rparr>)"
proof -
  let ?out = "[(sample_person ''A'' ''1985'' ''X'' ''1'')\<lparr>score := Some (Float (Fin (9 / 10))), rank := Some 0\<rparr>,
        (sample_person ''B'' ''1985'' ''X'' ''1'')\<lparr>score := Some (Float (Fin (85 / 100))), rank := Some 0\<rparr>,
        (sample_person ''C'' ''1985'' ''Y'' ''1'')\<lparr>score := Some (Float (Fin (7 / 10))), rank := Some 1\<rparr>]"
  let ?apps = "[sample_person ''C'' ''1985'' ''Y'' ''1'', sample_person ''A'' ''1985'' ''X'' ''1'',
        sample_person ''B'' ''1985'' ''X'' ''1'']"
  have th: "\<forall>i<length ?out. \<forall>j<length ?out.
         (rank (?out ! i) = rank (?out ! j))
         = (lab_key (equivs sample_config) (?out ! i) = lab_key (equivs sample_config) (?out ! j))"
    using same_rank_iff_same_lab [of sample_config ?apps ?out] by blast
  have e: "equivs sample_config = []" by (simp add: sample_config_def)
  have l: "(0::nat) < length ?out" "(1::nat) < length ?out" "(2::nat) < length ?out"
    by simp_all
  have "(rank (?out ! 0) = rank (?out ! 1))
         = (lab_key (equivs sample_config) (?out ! 0) = lab_key (equivs sample_config) (?out ! 1))"
    using th l by blast
  moreover have "lab_key (equivs sample_config) (?out ! 0) = lab_key (equivs sample_config) (?out ! 1)"
    by (simp add: e lab_key_sample)
  ultimately have 1: "rank (?out ! 0) = rank (?out ! 1)" by (rule iffD2)
  have "(rank (?out ! 1) = rank (?out ! 2))
         = (lab_key (equivs sample_config) (?out ! 1) = lab_key (equivs sample_config) (?out ! 2))"
    using th l by blast
  moreover have "lab_key (equivs sample_config) (?out ! 1) \<noteq> lab_key (equivs sample_config) (?out ! 2)"
    by (simp add: e lab_key_sample)
  ultimately have 2: "rank (?out ! 1) \<noteq> rank (?out ! 2)" by blast
  from 1 2 show ?thesis by simp
qed

section \<open>Properties of the group optimizer\<close>

lemma swap_rows_length [simp]: "length (swap_rows a b data) = length data"
  by (simp add: swap_rows_def)

lemma swap_rows_twice:
  "a < length data \<Longrightarrow> b < length data \<Longrightarrow> swap_rows a b (swap_rows a b data) = data"
  by (cases "a = b") (simp_all add: swap_rows_def list_update_swap nth_list_update)

lemma mset_swap_rows:
  "a < length data \<Longrightarrow> b < length data \<Longrightarrow> mset (swap_rows a b data) = mset data"
  unfolding swap_rows_def by (rule mset_swap)

lemma sum_list_scaled: "sum_list (map (\<lambda>w. w * c) ws) = sum_list ws * (c :: real)"
  by (induction ws) (simp_all add: algebra_simps)

lemma normalised_sum:
  "sum_list ws \<noteq> 0 \<Longrightarrow> sum_list (map (\<lambda>w. w * (1 / sum_list ws)) ws) = (1 :: real)"
  using sum_list_scaled [of "1 / sum_list ws" ws] by simp

lemma energy_Inr_iff:
  "(energy ng rated data K w = Inr (E, w')) =
   (shape_ok rated data \<and> 5 \<le> length w \<and> sum_list w \<noteq> 0
    \<and> w' = map (\<lambda>x. x * (1 / sum_list w)) w
    \<and> (\<exists>e0 e1 e2 e3 e4.
          energy_mudeviation ng (column 0 data) K (mean_axis0 rated ! 0) = Some e0
        \<and> energy_mudeviation ng (column 1 data) K (mean_axis0 rated ! 1) = Some e1
        \<and> energy_mudeviation ng (column 2 data) K (mean_axis0 rated ! 2) = Some e2
        \<and> energy_mudeviation ng (column 3 data) K (mean_axis0 rated ! 3) = Some e3
        \<and> energy_mudeviation ng (column 4 data) K (mean_axis0 rated ! 4) = Some e4
        \<and> E = w' ! 0 * e0 + w' ! 1 * e1 + w' ! 2 * e2 + w' ! 3 * e3 + w' ! 4 * e4))"
  unfolding energy_def shape_ok_def Let_def
  by (auto split: option.splits)

lemma energy_Inr:
  assumes "energy ng rated data K w = Inr (E, w')"
  shows "sum_list w \<noteq> 0" and "w' = map (\<lambda>x. x * (1 / sum_list w)) w"
  using assms unfolding energy_Inr_iff by blast+

lemma energy_normalised:
  assumes "energy ng rated data K w = Inr (E, w')" and "sum_list w = 1"
  shows "w' = w"
  using energy_Inr(2) [OF assms(1)] assms(2) by (simp add: map_idI)

lemma energy_idem:
  assumes "energy ng rated data K w = Inr (E, w')"
  shows "energy ng rated data K w' = Inr (E, w')"
proof -
  note e = energy_Inr [OF assms]
  have s: "sum_list w' = 1" unfolding e(2) using e(1) by (rule normalised_sum)
  have m: "map (\<lambda>x. x * (1 / sum_list w')) w' = w'" unfolding s by simp
  have l: "length w' = length w" unfolding e(2) by simp
  from assms have f: "shape_ok rated data" "5 \<le> length w"
    and ex: "\<exists>e0 e1 e2 e3 e4.
          energy_mudeviation ng (column 0 data) K (mean_axis0 rated ! 0) = Some e0
        \<and> energy_mudeviation ng (column 1 data) K (mean_axis0 rated ! 1) = Some e1
        \<and> energy_mudeviation ng (column 2 data) K (mean_axis0 rated ! 2) = Some e2
        \<and> energy_mudeviation ng (column 3 data) K (mean_axis0 rated ! 3) = Some e3
        \<and> energy_mudeviation ng (column 4 data) K (mean_axis0 rated ! 4) = Some e4
        \<and> E = w' ! 0 * e0 + w' ! 1 * e1 + w' ! 2 * e2 + w' ! 3 * e3 + w' ! 4 * e4"
    unfolding energy_Inr_iff by blast+
  have "shape_ok rated data \<and> 5 \<le> length w' \<and> sum_list w' \<noteq> 0
    \<and> w' = map (\<lambda>x. x * (1 / sum_list w')) w'
    \<and> (\<exists>e0 e1 e2 e3 e4.
          energy_mudeviation ng (column 0 data) K (mean_axis0 rated ! 0) = Some e0
        \<and> energy_mudeviation ng (column 1 data) K (mean_axis0 rated ! 1) = Some e1
        \<and> energy_mudeviation ng (column 2 data) K (mean_axis0 rated ! 2) = Some e2
        \<and> energy_mudeviation ng (column 3 data) K (mean_axis0 rated ! 3) = Some e3
        \<and> energy_mudeviation ng (column 4 data) K (mean_axis0 rated ! 4) = Some e4
        \<and> E = w' ! 0 * e0 + w' ! 1 * e1 + w' ! 2 * e2 + w' ! 3 * e3 + w' ! 4 * e4)"
    using f ex l s m [symmetric] by (intro conjI) simp_all
  then show ?thesis by (rule energy_Inr_iff [THEN iffD2])
qed

lemma optimize_SucE:
  assumes o: "optimize L ns ng rated (Suc rep) K p (data, w, g) = Some (Inr r)"
  obtains a b g1 E1 w1 E2 w2 where
    "draw_idx L ns K g = Some ((a, b), g1)"
    "energy ng rated data K w = Inr (E1, w1)"
    "a < length data" "b < length data"
    "energy ng rated (swap_rows a b data) K w1 = Inr (E2, w2)"
    "(if E1 < E2 then
        optimize L ns ng rated rep K p (swap_rows a b (swap_rows a b data), w2, g1)
      else if 0 < p then
        (case np_rand L g1 of
           (u, g2) \<Rightarrow>
             if u < p then
               optimize L ns ng rated rep K p (swap_rows a b (swap_rows a b data), w2, g2)
             else optimize L ns ng rated rep K p (swap_rows a b data, w2, g2))
      else optimize L ns ng rated rep K p (swap_rows a b data, w2, g1)) = Some (Inr r)"
proof -
  from o have ns: "ns \<noteq> 0" by (auto split: if_splits)
  from o ns obtain a b g1 where d: "draw_idx L ns K g = Some ((a, b), g1)"
    by (cases "draw_idx L ns K g") auto
  from o ns d obtain E1 w1 where e1: "energy ng rated data K w = Inr (E1, w1)"
    by (cases "energy ng rated data K w") auto
  from o ns d e1 have a: "a < length data" and b: "b < length data"
    by (auto split: if_splits)
  from o ns d e1 a b obtain E2 w2 where
    e2: "energy ng rated (swap_rows a b data) K w1 = Inr (E2, w2)"
    by (cases "energy ng rated (swap_rows a b data) K w1") auto
  from o ns d e1 a b e2 have
    "(if E1 < E2 then
        optimize L ns ng rated rep K p (swap_rows a b (swap_rows a b data), w2, g1)
      else if 0 < p then
        (case np_rand L g1 of
           (u, g2) \<Rightarrow>
             if u < p then
               optimize L ns ng rated rep K p (swap_rows a b (swap_rows a b data), w2, g2)
             else optimize L ns ng rated rep K p (swap_rows a b data, w2, g2))
      else optimize L ns ng rated rep K p (swap_rows a b data, w2, g1)) = Some (Inr r)"
    by simp
  with d e1 a b e2 show ?thesis by (rule that)
qed

lemma energy_sum_one:
  assumes "energy ng rated data K w = Inr (E, w')"
  shows "sum_list w' = 1"
  unfolding energy_Inr(2) [OF assms] using energy_Inr(1) [OF assms] by (rule normalised_sum)

text \<open>
  C10. Whatever the matrix, the group size, the number of repetitions, the acceptance
  probability and the generator, when \<open>optimize\<close> returns, the rows of the matrix are
  a permutation of the rows it was given: every proposal exchanges two whole rows, and
  a rejected proposal exchanges them back.
\<close>

theorem optimize_permutes_rows:
  assumes "optimize L nstudents ngroups rated rep K p (data, weights, g)
             = Some (Inr (data', weights', g'))"
  shows "mset data' = mset data"
  using assms
proof (induction rep arbitrary: data weights g)
  case 0
  then show ?case by simp
next
  case (Suc rep)
  from Suc.prems show ?case
  proof (rule optimize_SucE)
    fix a b g1 w2 and E1 E2 :: real
    assume a: "a < length data" and b: "b < length data"
      and nxt: "(if E1 < E2 then
          optimize L nstudents ngroups rated rep K p (swap_rows a b (swap_rows a b data), w2, g1)
        else if 0 < p then
          (case np_rand L g1 of
             (u, g2) \<Rightarrow>
               if u < p then
                 optimize L nstudents ngroups rated rep K p
                   (swap_rows a b (swap_rows a b data), w2, g2)
               else optimize L nstudents ngroups rated rep K p (swap_rows a b data, w2, g2))
        else optimize L nstudents ngroups rated rep K p (swap_rows a b data, w2, g1))
        = Some (Inr (data', weights', g'))"
    have 1: "mset data' = mset data"
      if "optimize L nstudents ngroups rated rep K p (swap_rows a b (swap_rows a b data), w2, gx)
            = Some (Inr (data', weights', g'))" for gx
      using Suc.IH [OF that] by (simp add: swap_rows_twice a b)
    have 2: "mset data' = mset data"
      if "optimize L nstudents ngroups rated rep K p (swap_rows a b data, w2, gx)
            = Some (Inr (data', weights', g'))" for gx
      using Suc.IH [OF that] by (simp add: mset_swap_rows a b)
    from nxt 1 2 show ?thesis
      by (auto split: if_splits prod.splits)
  qed
qed

text \<open>
  C6. With acceptance probability \<open>p = 0\<close>, whenever \<open>optimize\<close> returns after any
  number of repetitions, the energy of the matrix it leaves (computed as \<open>main\<close> does,
  with the weights as \<open>optimize\<close> leaves them) is not greater than the energy of the
  matrix it was given.
\<close>

theorem optimize_energy_not_greater:
  assumes "optimize L nstudents ngroups rated rep K 0 (data, weights, g)
             = Some (Inr (data', weights', g'))"
    and "energy ngroups rated data K weights = Inr (E_initial, w_initial)"
    and "energy ngroups rated data' K weights' = Inr (E_final, w_final)"
  shows "E_final \<le> E_initial"
  using assms
proof (induction rep arbitrary: data weights g E_initial w_initial)
  case 0
  then show ?case by simp
next
  case (Suc rep)
  from Suc.prems(1) show ?case
  proof (rule optimize_SucE)
    fix a b g1 E1 w1 E2 w2
    assume e1: "energy ngroups rated data K weights = Inr (E1, w1)"
      and a: "a < length data" and b: "b < length data"
      and e2: "energy ngroups rated (swap_rows a b data) K w1 = Inr (E2, w2)"
      and nxt: "(if E1 < E2 then
          optimize L nstudents ngroups rated rep K 0 (swap_rows a b (swap_rows a b data), w2, g1)
        else if (0::real) < 0 then
          (case np_rand L g1 of
             (u, g2) \<Rightarrow>
               if u < 0 then
                 optimize L nstudents ngroups rated rep K 0
                   (swap_rows a b (swap_rows a b data), w2, g2)
               else optimize L nstudents ngroups rated rep K 0 (swap_rows a b data, w2, g2))
        else optimize L nstudents ngroups rated rep K 0 (swap_rows a b data, w2, g1))
        = Some (Inr (data', weights', g'))"
    from e1 Suc.prems(2) have E1: "E1 = E_initial" and w1: "w1 = w_initial" by simp_all
    have s1: "sum_list w1 = 1"
      using e1 by (rule energy_sum_one)
    have w2: "w2 = w1" using e2 s1 by (rule energy_normalised)
    show ?thesis
    proof (cases "E1 < E2")
      case True
      with nxt have o: "optimize L nstudents ngroups rated rep K 0 (data, w1, g1)
          = Some (Inr (data', weights', g'))"
        by (simp add: swap_rows_twice a b w2)
      have "energy ngroups rated data K w1 = Inr (E1, w1)" using e1 by (rule energy_idem)
      from Suc.IH [OF o this Suc.prems(3)] show ?thesis by (simp add: E1)
    next
      case False
      with nxt have o: "optimize L nstudents ngroups rated rep K 0 (swap_rows a b data, w2, g1)
          = Some (Inr (data', weights', g'))"
        by simp
      have "energy ngroups rated (swap_rows a b data) K w2 = Inr (E2, w2)"
        using e2 by (rule energy_idem)
      from Suc.IH [OF o this Suc.prems(3)] False show ?thesis by (simp add: E1)
    qed
  qed
qed

lemma those_map_Some: "those (map (\<lambda>i. Some (f i)) xs) = Some (map f xs)"
  by (induction xs) simp_all

lemma np_std_std_dev: "xs \<noteq> [] \<Longrightarrow> np_std xs = Some (std_dev xs)"
  by (simp add: np_std_def np_mean_def std_dev_def)

lemma gslice_block:
  assumes "0 < K" "(i + 1) * K \<le> length col"
  shows "np_mean (gslice i K col) = Some (sum_list (take K (drop (i * K) col)) / real K)"
proof -
  have "length (take K (drop (i * K) col)) = K" using assms by simp
  then have "take K (drop (i * K) col) \<noteq> []" "real (length (take K (drop (i * K) col))) = real K"
    using assms(1) by auto
  then show ?thesis by (simp add: np_mean_def gslice_def)
qed

lemma energy_mudeviation_spec:
  assumes K: "0 < K" and d: "K dvd length col" and ne: "col \<noteq> []"
  shows "energy_mudeviation (length col div K) col K mu = Some (std_dev (group_means col K))"
proof -
  let ?n = "length col div K"
  have "0 < length col" using ne by simp
  then have "K \<le> length col" using d by (simp add: dvd_imp_le)
  then have n: "0 < ?n" using K by (simp add: div_greater_zero_iff)
  have blk: "np_mean (gslice i K col) = Some (sum_list (take K (drop (i * K) col)) / real K)"
    if "i \<in> set [0..<?n]" for i
  proof (rule gslice_block [OF K])
    from that have "i + 1 \<le> ?n" by simp
    then have "(i + 1) * K \<le> ?n * K" by (rule mult_le_mono1)
    also have "\<dots> = length col" using d by simp
    finally show "(i + 1) * K \<le> length col" .
  qed
  have "map (\<lambda>i. np_mean (gslice i K col)) [0..<?n]
      = map (\<lambda>i. Some (sum_list (take K (drop (i * K) col)) / real K)) [0..<?n]"
    by (rule map_cong [OF refl blk])
  then have "those (map (\<lambda>i. np_mean (gslice i K col)) [0..<?n]) = Some (group_means col K)"
    by (simp only: those_map_Some group_means_def)
  moreover have "group_means col K \<noteq> []" using n by (simp add: group_means_def)
  ultimately show ?thesis
    by (simp add: energy_mudeviation_def np_std_std_dev)
qed

lemma upt_5: "[0..<5] = [0, 1, 2, 3, 4]"
  by code_simp

lemma energy_eq_spec:
  assumes sh: "shape_ok rated data" and w: "length weights = 5" "sum_list weights \<noteq> 0"
    and K: "0 < K" "K dvd length data"
  shows "energy (length data div K) rated data K weights
     = Inr (energy_spec data K weights, map (\<lambda>w. w * (1 / sum_list weights)) weights)"
proof -
  have ne: "data \<noteq> []" using sh by (simp add: shape_ok_def)
  have em: "energy_mudeviation (length data div K) (column j data) K mu
      = Some (std_dev (group_means (column j data) K))" for j mu
    using energy_mudeviation_spec [of K "column j data" mu] K ne by (simp add: column_def)
  have nth: "map (\<lambda>w. w * (1 / sum_list weights)) weights ! j = weights ! j / sum_list weights"
    if "j < 5" for j using that w by simp
  have sp: "energy_spec data K weights
     = weights ! 0 / sum_list weights * std_dev (group_means (column 0 data) K)
     + weights ! 1 / sum_list weights * std_dev (group_means (column 1 data) K)
     + weights ! 2 / sum_list weights * std_dev (group_means (column 2 data) K)
     + weights ! 3 / sum_list weights * std_dev (group_means (column 3 data) K)
     + weights ! 4 / sum_list weights * std_dev (group_means (column 4 data) K)"
    by (simp add: energy_spec_def w upt_5)
  show ?thesis
    unfolding energy_Inr_iff sp using sh w by (simp add: em nth)
qed

lemma upt_2: "[0..<2] = [0, 1]"
  by code_simp

lemma std_dev_pair: "std_dev [x, y] = \<bar>x - y\<bar> / 2"
proof -
  have "(x - (x + y) / 2)\<^sup>2 + (y - (x + y) / 2)\<^sup>2 = 2 * ((x - y) / 2)\<^sup>2"
    by (simp add: power2_eq_square field_simps)
  then have "std_dev [x, y] = sqrt (((x - y) / 2)\<^sup>2)"
    by (simp add: std_dev_def)
  then show ?thesis by simp
qed

lemma group_means_4: "group_means [a, b, c, d] 2 = [(a + b) / 2, (c + d) / 2]"
  by (simp add: group_means_def upt_2)

lemma shape_ok_4:
  "shape_ok [[a0, a1, a2, a3, a4, a5], [b0, b1, b2, b3, b4, b5], [c0, c1, c2, c3, c4, c5],
             [d0, d1, d2, d3, d4, d5]]
            [[p0, p1, p2, p3, p4, p5], [q0, q1, q2, q3, q4, q5], [r0, r1, r2, r3, r4, r5],
             [s0, s1, s2, s3, s4, s5]]"
  by (simp add: shape_ok_def rectangular_def mean_axis0_def)

lemma energy_spec_4:
  "energy_spec [[p0, p1, p2, p3, p4, p5], [q0, q1, q2, q3, q4, q5], [r0, r1, r2, r3, r4, r5],
             [s0, s1, s2, s3, s4, s5]] 2 [v0, v1, v2, v3, v4]
   = v0 / (v0 + v1 + v2 + v3 + v4) * (\<bar>(p0 + q0) / 2 - (r0 + s0) / 2\<bar> / 2)
   + v1 / (v0 + v1 + v2 + v3 + v4) * (\<bar>(p1 + q1) / 2 - (r1 + s1) / 2\<bar> / 2)
   + v2 / (v0 + v1 + v2 + v3 + v4) * (\<bar>(p2 + q2) / 2 - (r2 + s2) / 2\<bar> / 2)
   + v3 / (v0 + v1 + v2 + v3 + v4) * (\<bar>(p3 + q3) / 2 - (r3 + s3) / 2\<bar> / 2)
   + v4 / (v0 + v1 + v2 + v3 + v4) * (\<bar>(p4 + q4) / 2 - (r4 + s4) / 2\<bar> / 2)"
  by (simp add: energy_spec_def upt_5 column_def group_means_4 std_dev_pair add.assoc)

lemma energy_4:
  assumes "v0 + v1 + v2 + v3 + v4 \<noteq> 0"
  shows "energy 2 [[a0, a1, a2, a3, a4, a5], [b0, b1, b2, b3, b4, b5], [c0, c1, c2, c3, c4, c5],
             [d0, d1, d2, d3, d4, d5]]
            [[p0, p1, p2, p3, p4, p5], [q0, q1, q2, q3, q4, q5], [r0, r1, r2, r3, r4, r5],
             [s0, s1, s2, s3, s4, s5]] 2 [v0, v1, v2, v3, v4]
   = Inr (energy_spec [[p0, p1, p2, p3, p4, p5], [q0, q1, q2, q3, q4, q5],
                       [r0, r1, r2, r3, r4, r5], [s0, s1, s2, s3, s4, s5]] 2 [v0, v1, v2, v3, v4],
          map (\<lambda>w. w * (1 / sum_list [v0, v1, v2, v3, v4])) [v0, v1, v2, v3, v4])"
proof -
  let ?D = "[[p0, p1, p2, p3, p4, p5], [q0, q1, q2, q3, q4, q5], [r0, r1, r2, r3, r4, r5],
             [s0, s1, s2, s3, s4, s5]]"
  have l: "length ?D div 2 = 2" by simp
  have "energy (length ?D div 2) [[a0, a1, a2, a3, a4, a5], [b0, b1, b2, b3, b4, b5],
      [c0, c1, c2, c3, c4, c5], [d0, d1, d2, d3, d4, d5]] ?D 2 [v0, v1, v2, v3, v4]
   = Inr (energy_spec ?D 2 [v0, v1, v2, v3, v4],
          map (\<lambda>w. w * (1 / sum_list [v0, v1, v2, v3, v4])) [v0, v1, v2, v3, v4])"
    by (rule energy_eq_spec [OF shape_ok_4]) (use assms in \<open>simp_all add: add.assoc\<close>)
  then show ?thesis unfolding l .
qed

lemma energy_sample:
  "energy 2 sample_rated sample_rated 2 [1, 1, 1, 1, 1]
     = Inr (1 / 5, [1 / 5, 1 / 5, 1 / 5, 1 / 5, 1 / 5])"
  unfolding sample_rated_def by (simp add: energy_4 energy_spec_4)

lemma energy_sample_swapped:
  "energy 2 sample_rated (swap_rows 0 3 sample_rated) 2 [1 / 5, 1 / 5, 1 / 5, 1 / 5, 1 / 5]
     = Inr (0, [1 / 5, 1 / 5, 1 / 5, 1 / 5, 1 / 5])"
  unfolding sample_rated_def by (simp add: swap_rows_def energy_4 energy_spec_4)

lemma draw_idx_sample: "draw_idx sample_library 4 2 0 = Some ((0, 3), 1)"
  by (subst draw_idx.simps) (simp add: sample_library_def)

lemma optimize_sample:
  "optimize sample_library 4 2 sample_rated (Suc 0) 2 0 (sample_rated, [1, 1, 1, 1, 1], 0)
     = Some (Inr (swap_rows 0 3 sample_rated, [1 / 5, 1 / 5, 1 / 5, 1 / 5, 1 / 5], 1))"
proof -
  have l: "length sample_rated = 4" by (simp add: sample_rated_def)
  show ?thesis
    by (simp add: draw_idx_sample energy_sample energy_sample_swapped l)
qed

lemma energy_spec_cong:
  assumes "length weights = 5"
    and "\<forall>j<5. group_means (column j data') K = group_means (column j data) K"
  shows "energy_spec data' K weights = energy_spec data K weights"
  using assms by (simp add: energy_spec_def upt_5)

text \<open>
  C2. For a feature matrix with the five feature columns, a group size \<open>K\<close> that
  divides the number of rows, five weights whose sum is not zero, and the number of
  groups equal to the number of rows divided by \<open>K\<close>, the energy equals the sum over
  the feature columns of the normalised weight times the standard deviation, across
  the groups, of the group means of the column. It does not depend on the global means
  (the rows of \<open>rated\<close>) nor on how the values are spread within a group: any other
  matrix with the same group means has the same energy.
\<close>

theorem energy_weighted_between_group_spread:
  assumes sh: "shape_ok rated data" and w: "length weights = 5" "sum_list weights \<noteq> 0"
    and K: "0 < K" "K dvd length data" and ng: "ngroups = length data div K"
  shows "(\<exists>w'. energy ngroups rated data K weights = Inr (energy_spec data K weights, w'))
    \<and> (\<forall>rated' data'.
          shape_ok rated' data' \<and> length data' = length data
          \<and> (\<forall>j<5. group_means (column j data') K = group_means (column j data) K)
          \<longrightarrow> energy ngroups rated' data' K weights = energy ngroups rated data K weights)"
proof (intro conjI allI impI)
  show "\<exists>w'. energy ngroups rated data K weights = Inr (energy_spec data K weights, w')"
    unfolding ng using energy_eq_spec [OF sh w K] by (rule exI)
next
  fix rated' data'
  assume a: "shape_ok rated' data' \<and> length data' = length data
          \<and> (\<forall>j<5. group_means (column j data') K = group_means (column j data) K)"
  then have sh': "shape_ok rated' data'" and l: "length data' = length data"
    and gm: "\<forall>j<5. group_means (column j data') K = group_means (column j data) K"
    by blast+
  have K': "K dvd length data'" using K(2) l by simp
  show "energy ngroups rated' data' K weights = energy ngroups rated data K weights"
    unfolding ng using energy_eq_spec [OF sh w K] energy_eq_spec [OF sh' w K(1) K']
    by (simp add: l energy_spec_cong [OF w(1) gm])
qed

text \<open>C2 on the four sample rows in groups of two: energy 1/5.\<close>

theorem energy_weighted_between_group_spread_witness:
  "\<exists>w'. energy 2 sample_rated sample_rated 2 [1, 1, 1, 1, 1] = Inr (1 / 5, w')"
proof -
  have sh: "shape_ok sample_rated sample_rated"
    unfolding sample_rated_def by (rule shape_ok_4)
  have sp: "energy_spec sample_rated 2 [1, 1, 1, 1, 1] = 1 / 5"
    unfolding sample_rated_def by (simp add: energy_spec_4)
  have "\<exists>w'. energy 2 sample_rated sample_rated 2 [1, 1, 1, 1, 1]
      = Inr (energy_spec sample_rated 2 [1, 1, 1, 1, 1], w')"
    using energy_weighted_between_group_spread [OF sh, of "[1, 1, 1, 1, 1]" 2 2]
    by (simp add: sample_rated_def)
  then show ?thesis unfolding sp .
qed

text \<open>C6 on one repetition over the sample rows: the proposal exchanges the rows 0 and 3
  and is kept, and the energy falls from 1/5 to 0.\<close>

theorem optimize_energy_not_greater_witness:
  "optimize sample_library 4 2 sample_rated (Suc 0) 2 0 (sample_rated, [1, 1, 1, 1, 1], 0)
     = Some (Inr (swap_rows 0 3 sample_rated, [1 / 5, 1 / 5, 1 / 5, 1 / 5, 1 / 5], 1))
   \<and> energy 2 sample_rated sample_rated 2 [1, 1, 1, 1, 1]
     = Inr (1 / 5, [1 / 5, 1 / 5, 1 / 5, 1 / 5, 1 / 5])
   \<and> energy 2 sample_rated (swap_rows 0 3 sample_rated) 2 [1 / 5, 1 / 5, 1 / 5, 1 / 5, 1 / 5]
     = Inr (0, [1 / 5, 1 / 5, 1 / 5, 1 / 5, 1 / 5])
   \<and> (0 :: real) \<le> 1 / 5"
  using optimize_sample energy_sample energy_sample_swapped
    optimize_energy_not_greater [OF optimize_sample energy_sample energy_sample_swapped]
  by (intro conjI)

text \<open>C10 on the same run.\<close>

theorem optimize_permutes_rows_witness:
  "optimize sample_library 4 2 sample_rated (Suc 0) 2 0 (sample_rated, [1, 1, 1, 1, 1], 0)
     = Some (Inr (swap_rows 0 3 sample_rated, [1 / 5, 1 / 5, 1 / 5, 1 / 5, 1 / 5], 1))
   \<and> mset (swap_rows 0 3 sample_rated) = mset sample_rated"
  using optimize_sample optimize_permutes_rows [OF optimize_sample]
  by (intro conjI)

lemma energy_unit_weights:
  "energy ng rated data K [1 / 5, 1 / 5, 1 / 5, 1 / 5, 1 / 5]
     = energy ng rated data K [1, 1, 1, 1, 1]"
  by (simp add: energy_def)

lemma energy_unit_weights_out:
  assumes "energy ng rated data K [1, 1, 1, 1, 1] = Inr (E, w)"
  shows "w = [1 / 5, 1 / 5, 1 / 5, 1 / 5, 1 / 5]"
  using energy_Inr(2) [OF assms] by simp

lemma optimize_keeps_weights:
  assumes "optimize L ns ng rated rep K p (data, w, g) = Some (Inr (data', w', g'))"
    and "sum_list w = 1"
  shows "w' = w"
  using assms
proof (induction rep arbitrary: data g)
  case 0
  then show ?case by simp
next
  case (Suc rep)
  from Suc.prems(1) show ?case
  proof (rule optimize_SucE)
    fix a b g1 E1 w1 E2 w2
    assume e1: "energy ng rated data K w = Inr (E1, w1)"
      and e2: "energy ng rated (swap_rows a b data) K w1 = Inr (E2, w2)"
      and nxt: "(if E1 < E2 then
          optimize L ns ng rated rep K p (swap_rows a b (swap_rows a b data), w2, g1)
        else if 0 < p then
          (case np_rand L g1 of
             (u, g2) \<Rightarrow>
               if u < p then
                 optimize L ns ng rated rep K p (swap_rows a b (swap_rows a b data), w2, g2)
               else optimize L ns ng rated rep K p (swap_rows a b data, w2, g2))
        else optimize L ns ng rated rep K p (swap_rows a b data, w2, g1))
        = Some (Inr (data', w', g'))"
    have w1: "w1 = w" using e1 Suc.prems(2) by (rule energy_normalised)
    have w2: "w2 = w" using e2 Suc.prems(2) unfolding w1 by (rule energy_normalised)
    have "w' = w" if "optimize L ns ng rated rep K p (d, w, gx) = Some (Inr (data', w', g'))"
      for d gx
      using that Suc.prems(2) by (rule Suc.IH)
    with nxt show ?thesis
      unfolding w2 by (auto split: if_splits prod.splits)
  qed
qed

lemma optimize_unit_weights:
  "map_option (map_sum id (\<lambda>(d, w, g). (d, g)))
     (optimize L ns ng rated rep K p (data, [1, 1, 1, 1, 1], g))
   = map_option (map_sum id (\<lambda>(d, w, g). (d, g)))
     (optimize L ns ng rated rep K p (data, [1 / 5, 1 / 5, 1 / 5, 1 / 5, 1 / 5], g))"
proof (cases rep)
  case 0
  then show ?thesis by simp
next
  case (Suc n)
  have "optimize L ns ng rated (Suc n) K p (data, [1 / 5, 1 / 5, 1 / 5, 1 / 5, 1 / 5], g)
      = optimize L ns ng rated (Suc n) K p (data, [1, 1, 1, 1, 1], g)"
    by (simp add: energy_unit_weights split: option.splits prod.splits)
  then show ?thesis unfolding Suc by simp
qed

lemma map_option_sum_cases:
  assumes "map_option (map_sum id f) x = map_option (map_sum id f') y"
  shows "(x = None \<and> y = None) \<or> (\<exists>e. x = Some (Inl e) \<and> y = Some (Inl e))
       \<or> (\<exists>a b. x = Some (Inr a) \<and> y = Some (Inr b) \<and> f a = f' b)"
  using assms by (cases x; cases y) (auto simp: map_sum_def split: sum.splits)

lemma trial_body_single:
  assumes w: "weights = [1, 1, 1, 1, 1] \<or> weights = [1 / 5, 1 / 5, 1 / 5, 1 / 5, 1 / 5]"
  shows "(trial_body L C rated s weights = None \<and> single_trial L C rated s = None)
       \<or> (\<exists>e. trial_body L C rated s weights = Some (Inl e)
              \<and> single_trial L C rated s = Some (Inl e))
       \<or> (\<exists>g2 E0 E1 data'.
             trial_body L C rated s weights
               = Some (Inr ([1 / 5, 1 / 5, 1 / 5, 1 / 5, 1 / 5], g2, E0, E1, data'))
           \<and> single_trial L C rated s = Some (Inr (E0, E1, data')))"
proof -
  let ?W = "[1 / 5, 1 / 5, 1 / 5, 1 / 5, 1 / 5] :: real list"
  let ?ones = "[1, 1, 1, 1, 1] :: real list"
  have e: "energy ng rated d K weights = energy ng rated d K ?ones" for ng d K
    using w energy_unit_weights by auto
  show ?thesis
  proof (cases "np_seed L s")
    case (Inl x)
    then show ?thesis by (simp add: trial_body_def single_trial_def)
  next
    case (Inr g0)
    obtain data g1 where p: "np_permutation L rated g0 = (data, g1)"
      by (cases "np_permutation L rated g0")
    show ?thesis
    proof (cases "energy (NGROUPS C) rated data (GSIZE C) ?ones")
      case (Inl x)
      then show ?thesis by (simp add: trial_body_def single_trial_def Inr p e)
    next
      case e0: (Inr r0)
      obtain E0 w0 where r0: "r0 = (E0, w0)" by (cases r0)
      have w0: "w0 = ?W" using e0 unfolding r0 by (rule energy_unit_weights_out)
      let ?oW = "optimize L (NSTUDENTS C) (NGROUPS C) rated (repetitions C) (GSIZE C) 0
                   (data, ?W, g1)"
      let ?o1 = "optimize L (NSTUDENTS C) (NGROUPS C) rated (repetitions C) (GSIZE C) 0
                   (data, ?ones, g1)"
      have tb: "trial_body L C rated s weights =
        (case ?oW of
           None \<Rightarrow> None
         | Some (Inl e) \<Rightarrow> Some (Inl e)
         | Some (Inr (data', w1, g2)) \<Rightarrow>
             (case energy (NGROUPS C) rated data' (GSIZE C) w1 of
                Inl e \<Rightarrow> Some (Inl e)
              | Inr (E1, w2) \<Rightarrow> Some (Inr (w2, g2, E0, E1, data'))))"
        by (simp add: trial_body_def Inr p e e0 r0 w0)
      have st: "single_trial L C rated s =
        (case ?o1 of
           None \<Rightarrow> None
         | Some (Inl e) \<Rightarrow> Some (Inl e)
         | Some (Inr (data', w1, g2)) \<Rightarrow>
             (case energy (NGROUPS C) rated data' (GSIZE C) ?ones of
                Inl e \<Rightarrow> Some (Inl e)
              | Inr (E1, w2) \<Rightarrow> Some (Inr (E0, E1, data'))))"
        by (simp add: single_trial_def Inr p e0 r0)
      from map_option_sum_cases [OF optimize_unit_weights [of L "NSTUDENTS C" "NGROUPS C" rated
          "repetitions C" "GSIZE C" 0 data g1]]
      show ?thesis
      proof (elim disjE exE conjE)
        assume "?o1 = None" "?oW = None"
        then show ?thesis by (simp add: tb st)
      next
        fix x assume "?o1 = Some (Inl x)" "?oW = Some (Inl x)"
        then show ?thesis by (simp add: tb st)
      next
        fix a b
        assume ok: "?o1 = Some (Inr a)" "?oW = Some (Inr b)"
            "(case a of (d, w, g) \<Rightarrow> (d, g)) = (case b of (d, w, g) \<Rightarrow> (d, g))"
        obtain data' w1 g2 where b: "b = (data', w1, g2)" by (cases b)
        obtain w1s where a: "a = (data', w1s, g2)" using ok(3) unfolding b by (cases a) auto
        have w1: "w1 = ?W"
          using ok(2) unfolding b by (rule optimize_keeps_weights) simp
        show ?thesis
        proof (cases "energy (NGROUPS C) rated data' (GSIZE C) ?ones")
          case (Inl x)
          then show ?thesis
            by (simp add: tb st ok(1,2) a b w1 energy_unit_weights)
        next
          case e1: (Inr r1)
          obtain E1 w2 where r1: "r1 = (E1, w2)" by (cases r1)
          have w2: "w2 = ?W" using e1 unfolding r1 by (rule energy_unit_weights_out)
          show ?thesis
            by (simp add: tb st ok(1,2) a b w1 energy_unit_weights e1 r1 w2)
        qed
      qed
    qed
  qed
qed

lemma trials_step:
  "trials L C rated rs (i # rest) (weights, g, ies, es, ds) =
     (case trial_body L C rated (word_of_nat i * rs) weights of
        None \<Rightarrow> None
      | Some (Inl e) \<Rightarrow> Some (Inl e)
      | Some (Inr (w2, g2, E0, E1, data')) \<Rightarrow>
          trials L C rated rs rest (w2, g2, ies @ [E0], es @ [E1], ds @ [data']))"
  by (simp add: trial_body_def split: sum.splits option.splits prod.splits)

lemma trials_in_sequence:
  assumes "weights = [1, 1, 1, 1, 1] \<or> weights = [1 / 5, 1 / 5, 1 / 5, 1 / 5, 1 / 5]"
  shows "map_option (map_sum id (\<lambda>(w, g, r). r))
           (trials L C rated rs trial_numbers (weights, g, ies, es, ds))
       = (case in_sequence (map (\<lambda>i. single_trial L C rated (trial_seed rs i)) trial_numbers) of
            None \<Rightarrow> None
          | Some (Inl e) \<Rightarrow> Some (Inl e)
          | Some (Inr results) \<Rightarrow>
              Some (Inr (ies @ map fst results, es @ map (\<lambda>r. fst (snd r)) results,
                         ds @ map (\<lambda>r. snd (snd r)) results)))"
  using assms
proof (induction trial_numbers arbitrary: weights g ies es ds)
  case Nil
  then show ?case by simp
next
  case (Cons i rest)
  let ?W = "[1 / 5, 1 / 5, 1 / 5, 1 / 5, 1 / 5] :: real list"
  from trial_body_single [OF Cons.prems, of L C rated "word_of_nat i * rs"]
  show ?case
  proof (elim disjE exE conjE)
    assume "trial_body L C rated (word_of_nat i * rs) weights = None"
      "single_trial L C rated (word_of_nat i * rs) = None"
    then show ?thesis by (simp add: trials_step trial_seed_def del: trials.simps)
  next
    fix e assume "trial_body L C rated (word_of_nat i * rs) weights = Some (Inl e)"
      "single_trial L C rated (word_of_nat i * rs) = Some (Inl e)"
    then show ?thesis by (simp add: trials_step trial_seed_def del: trials.simps)
  next
    fix g2 E0 E1 data'
    assume ok: "trial_body L C rated (word_of_nat i * rs) weights
        = Some (Inr (?W, g2, E0, E1, data'))"
      "single_trial L C rated (word_of_nat i * rs) = Some (Inr (E0, E1, data'))"
    have ih: "map_option (map_sum id (\<lambda>(w, g, r). r))
           (trials L C rated rs rest (?W, g2, ies @ [E0], es @ [E1], ds @ [data']))
       = (case in_sequence (map (\<lambda>i. single_trial L C rated (trial_seed rs i)) rest) of
            None \<Rightarrow> None
          | Some (Inl e) \<Rightarrow> Some (Inl e)
          | Some (Inr results) \<Rightarrow>
              Some (Inr ((ies @ [E0]) @ map fst results, (es @ [E1]) @ map (\<lambda>r. fst (snd r)) results,
                         (ds @ [data']) @ map (\<lambda>r. snd (snd r)) results)))"
      by (rule Cons.IH) simp
    have lhs: "trials L C rated rs (i # rest) (weights, g, ies, es, ds)
        = trials L C rated rs rest (?W, g2, ies @ [E0], es @ [E1], ds @ [data'])"
      by (simp only: trials_step ok(1) option.case sum.case prod.case)
    have rhs: "in_sequence (map (\<lambda>i. single_trial L C rated (trial_seed rs i)) (i # rest))
        = (case in_sequence (map (\<lambda>i. single_trial L C rated (trial_seed rs i)) rest) of
             None \<Rightarrow> None
           | Some (Inl e) \<Rightarrow> Some (Inl e)
           | Some (Inr xs) \<Rightarrow> Some (Inr ((E0, E1, data') # xs)))"
      using ok(2) by (simp add: trial_seed_def)
    show ?thesis
      unfolding lhs rhs ih by (simp split: option.splits sum.splits)
  qed
qed

text \<open>
  C7. The outcome of \<open>main\<close> (the best partition and the energies of all trials, or
  the failure, or not returning) is that of the search described by \<open>main_spec\<close>:
  the trials are independent of each other and of the state of the global generator
  when the script starts. Trial \<open>i\<close> is the run of one trial from the generator
  seeded with \<open>i\<close> times the top-level seed, and the top-level seed is the sum of the
  words of the SHA-512 digest of the seed string, floor-divided by the number of
  trials. So the outcome is a function of the rated rows, the parameters and the seed
  string alone, and two runs on the same inputs give the same partitions and
  energies. (The weights, which the trial loop carries from one trial into the next,
  and the generator state a trial leaves behind have no influence on later trials.)
\<close>

theorem main_trials_independent:
  "main L C rated g = main_spec L C rated"
proof -
  let ?top = "sum_list (sha512_words L (seed_string C)) div word_of_nat (TRIALS C)"
  show ?thesis
  proof (cases "np_seed L ?top")
    case (Inl e)
    then show ?thesis
      by (simp add: main_def main_spec_def random_seed_def top_level_seed_def)
  next
    case (Inr g0)
    let ?T = "trials L C rated ?top [1..<TRIALS C + 1] ([1, 1, 1, 1, 1], g0, [], [], [])"
    let ?S = "in_sequence (map (\<lambda>i. single_trial L C rated (trial_seed ?top i)) [1..<TRIALS C + 1])"
    have t: "map_option (map_sum id (\<lambda>(w, g, r). r)) ?T
       = (case ?S of
            None \<Rightarrow> None
          | Some (Inl e) \<Rightarrow> Some (Inl e)
          | Some (Inr results) \<Rightarrow>
              Some (Inr ([] @ map fst results, [] @ map (\<lambda>r. fst (snd r)) results,
                         [] @ map (\<lambda>r. snd (snd r)) results)))"
      by (rule trials_in_sequence) simp
    show ?thesis
    proof (cases ?S)
      case None
      with t have "?T = None" by simp
      then show ?thesis
        using None by (simp add: main_def main_spec_def random_seed_def top_level_seed_def Inr)
    next
      case (Some x)
      show ?thesis
      proof (cases x)
        case (Inl e)
        with t Some have "?T = Some (Inl e)"
          by (cases ?T) (auto simp: map_sum_def split: sum.splits)
        then show ?thesis
          using Some Inl
          by (simp add: main_def main_spec_def random_seed_def top_level_seed_def Inr)
      next
        case r: (Inr results)
        with t Some obtain w g' where T: "?T = Some (Inr (w, g', map fst results,
            map (\<lambda>r. fst (snd r)) results, map (\<lambda>r. snd (snd r)) results))"
          by (cases ?T) (auto simp: map_sum_def split: sum.splits)
        show ?thesis
          using Some r T
          by (simp add: main_def main_spec_def random_seed_def top_level_seed_def Inr
              split: list.splits)
      qed
    qed
  qed
qed

lemma random_seed_sample: "random_seed sample_library sample_settings = 4"
  by (simp add: random_seed_def sample_library_def sample_settings_def)

lemma energy_sample_rev:
  "energy 2 sample_rated (rev sample_rated) 2 [1, 1, 1, 1, 1]
     = Inr (1 / 5, [1 / 5, 1 / 5, 1 / 5, 1 / 5, 1 / 5])"
  unfolding sample_rated_def by (simp add: energy_4 energy_spec_4)

lemma energy_sample_rev_swapped:
  "energy 2 sample_rated (swap_rows (Suc 0) 2 (rev sample_rated)) 2 [1 / 5, 1 / 5, 1 / 5, 1 / 5, 1 / 5]
     = Inr (0, [1 / 5, 1 / 5, 1 / 5, 1 / 5, 1 / 5])"
  unfolding sample_rated_def by (simp add: swap_rows_def energy_4 energy_spec_4)

lemma draw_idx_sample_5: "draw_idx sample_library 4 2 5 = Some ((Suc 0, 2), 6)"
  by (subst draw_idx.simps) (simp add: sample_library_def)

lemma optimize_sample_rev:
  "optimize sample_library 4 2 sample_rated (Suc 0) 2 0
     (rev sample_rated, [1 / 5, 1 / 5, 1 / 5, 1 / 5, 1 / 5], 5)
   = Some (Inr (swap_rows (Suc 0) 2 (rev sample_rated), [1 / 5, 1 / 5, 1 / 5, 1 / 5, 1 / 5], 6))"
proof -
  have l: "length sample_rated = 4" by (simp add: sample_rated_def)
  have e: "energy 2 sample_rated (rev sample_rated) 2 [1 / 5, 1 / 5, 1 / 5, 1 / 5, 1 / 5]
     = Inr (1 / 5, [1 / 5, 1 / 5, 1 / 5, 1 / 5, 1 / 5])"
    using energy_sample_rev by (rule energy_idem)
  show ?thesis
    by (simp add: draw_idx_sample_5 e energy_sample_rev_swapped l)
qed

lemma main_sample:
  "main sample_library sample_settings sample_rated g
     = Some (Inr (swap_rows (Suc 0) 2 (rev sample_rated), [0], [1 / 5]))"
proof -
  have l: "length sample_rated = 4" by (simp add: sample_rated_def)
  have c: "NSTUDENTS sample_settings = 4" "GSIZE sample_settings = 2" "TRIALS sample_settings = 1"
    "repetitions sample_settings = Suc 0" "NGROUPS sample_settings = 2"
    by (simp_all add: sample_settings_def NGROUPS_def)
  have p: "np_seed sample_library 4 = Inr 4"
    "np_permutation sample_library sample_rated 4 = (rev sample_rated, 5)"
    by (simp_all add: sample_library_def)
  have e: "energy 2 sample_rated (swap_rows (Suc 0) 2 (rev sample_rated)) 2 [1 / 5, 1 / 5, 1 / 5, 1 / 5, 1 / 5]
     = Inr (0, [1 / 5, 1 / 5, 1 / 5, 1 / 5, 1 / 5])"
    by (rule energy_sample_rev_swapped)
  have t: "trials sample_library sample_settings sample_rated 4 [1]
      ([1, 1, 1, 1, 1], g', [], [], [])
    = Some (Inr ([1 / 5, 1 / 5, 1 / 5, 1 / 5, 1 / 5], 6, [1 / 5], [0],
                 [swap_rows (Suc 0) 2 (rev sample_rated)]))" for g'
    by (simp add: c p energy_sample_rev optimize_sample_rev e del: optimize.simps)
  have a: "np_argsort sample_library [0] = [0]"
    by (simp add: sample_library_def)
  have u: "[1..<TRIALS sample_settings + 1] = [1]" by (simp add: c)
  show ?thesis
    unfolding main_def random_seed_sample u t by (simp add: c l a p)
qed

text \<open>C7 on the sample: one trial of one repetition on the four sample rows, from a
  seed string of four characters. The run returns, from any state of the global
  generator, the partition and the energies of the search by independent trials.\<close>

theorem main_trials_independent_witness:
  "main sample_library sample_settings sample_rated 7
     = Some (Inr (swap_rows (Suc 0) 2 (rev sample_rated), [0], [1 / 5]))
   \<and> main_spec sample_library sample_settings sample_rated
     = Some (Inr (swap_rows (Suc 0) 2 (rev sample_rated), [0], [1 / 5]))"
  using main_trials_independent [of sample_library sample_settings sample_rated 7]
    main_sample [of 7]
  by simp

end
